theory Spec2Isabelle
  imports Complex_Main "HOL-Library.AList"
begin

section \<open>JavaScript values as the connector sees them\<close>

text \<open>
  The connector works on parsed JSON.  A field of a row is one of the JSON primitives;
  reading an absent field yields \<open>undefined\<close>.  Numbers are modelled as exact reals;
  \<open>NaN\<close> never occurs in parsed JSON, and where the code computes one (a failed
  \<open>parseFloat\<close>) the model uses \<open>None\<close>.
\<close>

datatype jsval = Undefined | Null | Bool bool | Num real | Str string

fun truthy :: "jsval \<Rightarrow> bool" where
  "truthy Undefined = False"
| "truthy Null = False"
| "truthy (Bool b) = b"
| "truthy (Num x) = (x \<noteq> 0)"
| "truthy (Str s) = (s \<noteq> [])"

text \<open>The decimal numeral of a natural number, as \<open>String\<close> prints it.\<close>

definition digit :: "nat \<Rightarrow> char" where
  "digit d = ''0123456789'' ! d"

function dec :: "nat \<Rightarrow> string" where
  "dec n = (if n < 10 then [digit n] else dec (n div 10) @ [digit (n mod 10)])"
  by pat_completeness auto

termination
  by (relation "measure id") auto

declare dec.simps [simp del]

text \<open>
  Where the code looks at the digits of a number (\<open>String(time)\<close>, a number used as a
  property name), the number is given by decimal digits and an exponent: \<open>Finite m e\<close>
  is \<open>m * 10^e\<close>.  Every finite double is of this form with the shortest digits that
  read back as the same double, which are the digits \<open>String\<close> prints; a decimal
  literal of at most 15 significant digits is the shortest form of the double it denotes.
  Trailing zeros of \<open>m\<close> do not count as digits (\<open>strip\<close> moves them into the exponent).
\<close>

datatype number = NaN | Infinity | NegInfinity | Finite int int

function strip :: "nat \<Rightarrow> int \<Rightarrow> nat \<times> int" where
  "strip s e = (if s \<noteq> 0 \<and> s mod 10 = 0 then strip (s div 10) (e + 1) else (s, e))"
  by pat_completeness auto

termination
  by (relation "measure fst") auto

declare strip.simps [simp del]

text \<open>
  \<open>Number::toString\<close> of ECMAScript for a positive number with digits \<open>s\<close> (\<open>k\<close> of
  them) and \<open>n = k + e\<close>, the position of the decimal point: an integer below \<open>10^21\<close>
  prints its digits and zeros; a number with the point inside its digits prints both
  parts; a small fraction down to \<open>10^-6\<close> prints \<open>0.\<close>, zeros and the digits; everything
  else prints in exponent form, as \<open>1e21\<close> does (\<open>1e+21\<close>).
\<close>

definition positive_string :: "nat \<times> int \<Rightarrow> string" where
  "positive_string se =
     (let ds = dec (fst se); k = int (length ds); n = k + snd se in
      if k \<le> n \<and> n \<le> 21 then ds @ replicate (nat (n - k)) CHR ''0''
      else if 0 < n \<and> n \<le> 21 then take (nat n) ds @ ''.'' @ drop (nat n) ds
      else if - 6 < n \<and> n \<le> 0 then ''0.'' @ replicate (nat (- n)) CHR ''0'' @ ds
      else hd ds # (if tl ds = [] then [] else CHR ''.'' # tl ds) @ ''e''
             @ (if n - 1 < 0 then ''-'' else ''+'') @ dec (nat \<bar>n - 1\<bar>))"

text \<open>\<open>String(x)\<close> for a number \<open>x\<close>.\<close>

fun number_string :: "number \<Rightarrow> string" where
  "number_string NaN = ''NaN''"
| "number_string Infinity = ''Infinity''"
| "number_string NegInfinity = ''-Infinity''"
| "number_string (Finite m e) =
     (if m = 0 then ''0''
      else (if m < 0 then ''-'' else []) @ positive_string (strip (nat \<bar>m\<bar>) e))"

text \<open>
  The digits of a number of a row.  A number of a JSON text is a finite decimal:
  \<open>decimal_of\<close> shifts the point until the value is whole, for at most as many places as a
  double can have (1100 covers them).
\<close>

fun decimal_of :: "nat \<Rightarrow> real \<Rightarrow> int \<Rightarrow> number" where
  "decimal_of 0 x e = Finite \<lfloor>x\<rfloor> e"
| "decimal_of (Suc fuel) x e =
     (if of_int \<lfloor>x\<rfloor> = x then Finite \<lfloor>x\<rfloor> e else decimal_of fuel (x * 10) (e - 1))"

text \<open>
  A value used as a property name, \<open>obj[v]\<close>, is turned into a string first.
\<close>

fun property_name :: "jsval \<Rightarrow> string" where
  "property_name Undefined = ''undefined''"
| "property_name Null = ''null''"
| "property_name (Bool b) = (if b then ''true'' else ''false'')"
| "property_name (Num x) = number_string (decimal_of 1100 x 0)"
| "property_name (Str s) = s"

text \<open>What a \<open>throw\<close> carries: the error class and its message (URLs left out).\<close>

datatype exn = Error string | TypeError string

section \<open>The fetch loops\<close>

text \<open>
  Every loop talks to the network through \<open>axios.get\<close> and waits through \<open>_sleep\<close>.
  The model records both in a trace: \<open>Request q\<close> for a call with parameters \<open>q\<close>,
  \<open>Sleep ms\<close> for \<open>_sleep(ms)\<close>, whose argument is in milliseconds
  (\<open>setTimeout(resolve, ms)\<close>).  The server is a function of the number of requests
  answered so far and of the request.
\<close>

datatype 'q event = Request 'q | Sleep nat

text \<open>\<open>constants.ts\<close>: \<open>MAX_RETRIES = 15\<close>, \<open>RETRY_DELAY = [2, 4]\<close>.\<close>

definition MAX_RETRIES :: nat where
  "MAX_RETRIES = 15"

definition RETRY_DELAY :: "nat \<times> nat" where
  "RETRY_DELAY = (2, 4)"

text \<open>Local to \<open>_influxdb\<close>: \<open>MAX_RETRIES_INFLUX = 8\<close>, \<open>RETRY_DELAY_INFLUX = [2000, 10000]\<close>.\<close>

definition MAX_RETRIES_INFLUX :: nat where
  "MAX_RETRIES_INFLUX = 8"

definition RETRY_DELAY_INFLUX :: "nat \<times> nat" where
  "RETRY_DELAY_INFLUX = (2000, 10000)"

text \<open>
  The \<open>data\<close> field of a response body: absent (or otherwise falsy), an array of rows, or
  a truthy value that is no array.
\<close>

datatype 'r payload = NoData | Rows "'r list" | NotRows

fun rows_of :: "'r payload \<Rightarrow> 'r list" where
  "rows_of NoData = []"
| "rows_of (Rows rs) = rs"
| "rows_of NotRows = []"

text \<open>
  A response of the two cursor endpoints: \<open>axios.get\<close> rejects (network failure, HTTP
  error status, body that is no object), or the body carries the flag \<open>success\<close> (truthy
  means the server reports an error), \<open>data\<close> and \<open>cursor\<close>.
\<close>

datatype ('r, 'c) response = Rejected | Response (r_success: bool) (r_data: "'r payload") (r_cursor: 'c)

subsection \<open>\<open>getDp\<close>: one cursor walk per sensor\<close>

text \<open>
  The cursor variable holds whatever the server sent: an object with \<open>end\<close> and
  \<open>limit\<close>, or \<open>null\<close>/\<open>undefined\<close> (\<open>NoCursorInfo\<close>).  The loop guard
  \<open>cursor.end\<close> is evaluated outside the inner \<open>try\<close>: on \<open>null\<close> it throws a
  \<open>TypeError\<close> that leaves the loop.
\<close>

datatype cursor_info = NoCursorInfo | CursorInfo (ci_end: jsval) (ci_limit: jsval)

type_synonym dp_request = "string \<times> jsval \<times> jsval"

text \<open>
  The body of the inner \<open>try\<close> throws when the request is rejected, when \<open>success\<close> is
  truthy, and when a truthy \<open>data\<close> cannot be spread into \<open>allData.push\<close>.
\<close>

fun dp_failed :: "('r, cursor_info) response \<Rightarrow> bool" where
  "dp_failed Rejected = True"
| "dp_failed (Response s d c) = (s \<or> d = NotRows)"

text \<open>
  The \<open>while (cursor.end)\<close> loop for one sensor.  State: \<open>cursor\<close>, \<open>allData\<close>,
  \<open>retry\<close>; \<open>k\<close> counts the requests made so far and \<open>tr\<close> is the trace.  The result
  is \<open>None\<close> when the loop never ends.
\<close>

partial_function (option) getDp_loop ::
  "(nat \<Rightarrow> dp_request \<Rightarrow> ('r, cursor_info) response) \<Rightarrow> string \<Rightarrow> cursor_info \<Rightarrow> 'r list \<Rightarrow> nat
     \<Rightarrow> nat \<Rightarrow> dp_request event list \<Rightarrow> ((exn + 'r list) \<times> nat \<times> dp_request event list) option" where
  "getDp_loop srv sensor cursor allData retry k tr =
     (case cursor of
        NoCursorInfo \<Rightarrow>
          Some (Inl (TypeError ''Cannot read properties of null (reading 'end')''), k, tr)
      | CursorInfo e l \<Rightarrow>
          if \<not> truthy e then Some (Inr allData, k, tr)
          else if dp_failed (srv k (sensor, e, l)) then
            if Suc retry \<ge> MAX_RETRIES
            then Some (Inl (Error ''Max retries reached while calling url''), Suc k,
                       tr @ [Request (sensor, e, l)])
            else getDp_loop srv sensor cursor allData (Suc retry) (Suc k)
                   (tr @ [Request (sensor, e, l),
                          Sleep (if Suc retry > 5 then snd RETRY_DELAY else fst RETRY_DELAY)])
          else getDp_loop srv sensor (r_cursor (srv k (sensor, e, l)))
                 (allData @ rows_of (r_data (srv k (sensor, e, l)))) retry (Suc k)
                 (tr @ [Request (sensor, e, l)]))"

declare getDp_loop.simps [code]

subsection \<open>\<open>_influxdb\<close>: one cursor walk over the whole range\<close>

datatype cursor_data = NoCursorData | CursorData (cd_start: jsval) (cd_end: jsval)

text \<open>The guard \<open>cursor?.start && cursor?.end\<close>.\<close>

fun cursor_open :: "cursor_data \<Rightarrow> bool" where
  "cursor_open NoCursorData = False"
| "cursor_open (CursorData s e) = (truthy s \<and> truthy e)"

type_synonym influx_request = "jsval \<times> jsval"

text \<open>
  Here the body of the \<open>try\<close> throws when the request is rejected or \<open>success\<close> is
  truthy; \<open>data\<close> is appended only under \<open>Array.isArray(data)\<close>.
\<close>

fun influx_failed :: "('r, cursor_data) response \<Rightarrow> bool" where
  "influx_failed Rejected = True"
| "influx_failed (Response s d c) = s"

partial_function (option) influx_loop ::
  "(nat \<Rightarrow> influx_request \<Rightarrow> ('r, cursor_data) response) \<Rightarrow> cursor_data \<Rightarrow> 'r list \<Rightarrow> nat
     \<Rightarrow> nat \<Rightarrow> influx_request event list \<Rightarrow> ((exn + 'r list) \<times> nat \<times> influx_request event list) option" where
  "influx_loop srv cursor allData retry k tr =
     (if \<not> cursor_open cursor then Some (Inr allData, k, tr)
      else if influx_failed (srv k (cd_start cursor, cd_end cursor)) then
        if Suc retry < MAX_RETRIES_INFLUX
        then influx_loop srv cursor allData (Suc retry) (Suc k)
               (tr @ [Request (cd_start cursor, cd_end cursor),
                      Sleep (if Suc retry > 5 then snd RETRY_DELAY_INFLUX else fst RETRY_DELAY_INFLUX)])
        else Some (Inl (Error ''Max retries reached fetching data.''), Suc k,
                   tr @ [Request (cd_start cursor, cd_end cursor)])
      else influx_loop srv (r_cursor (srv k (cd_start cursor, cd_end cursor)))
             (allData @ rows_of (r_data (srv k (cd_start cursor, cd_end cursor)))) retry (Suc k)
             (tr @ [Request (cd_start cursor, cd_end cursor)]))"

declare influx_loop.simps [code]

subsection \<open>\<open>getLoadEntities\<close>: walking page numbers\<close>

text \<open>
  A page response: rejected, or a body with the flag \<open>error\<close>, the entities under
  \<open>data\<close> (\<open>None\<close> when the field cannot be spread) and \<open>totalCount\<close> (\<open>None\<close> when
  it is no number, so that \<open>result.length < totalCount\<close> is false).
\<close>

datatype 'r page_response =
  PageRejected | PageResponse (p_error: bool) (p_data: "'r list option") (p_totalCount: "int option")

fun page_failed :: "'r page_response \<Rightarrow> bool" where
  "page_failed PageRejected = True"
| "page_failed (PageResponse e d t) = (e \<or> d = None)"

fun page_rows :: "'r page_response \<Rightarrow> 'r list" where
  "page_rows PageRejected = []"
| "page_rows (PageResponse e d t) = (case d of None \<Rightarrow> [] | Some rs \<Rightarrow> rs)"

fun page_total :: "'r page_response \<Rightarrow> int option" where
  "page_total PageRejected = None"
| "page_total (PageResponse e d t) = t"

text \<open>\<open>hasMore = result.length < totalCount\<close>.\<close>

definition has_more :: "'r list \<Rightarrow> int option \<Rightarrow> bool" where
  "has_more result totalCount = (case totalCount of None \<Rightarrow> False | Some t \<Rightarrow> int (length result) < t)"

text \<open>The request is the page number; the page size is the constant 5.\<close>

partial_function (option) loadEntities_loop ::
  "(nat \<Rightarrow> nat \<Rightarrow> 'r page_response) \<Rightarrow> nat \<Rightarrow> bool \<Rightarrow> 'r list \<Rightarrow> nat
     \<Rightarrow> nat \<Rightarrow> nat event list \<Rightarrow> ((exn + 'r list) \<times> nat \<times> nat event list) option" where
  "loadEntities_loop srv pageCount hasMore result retry k tr =
     (if \<not> hasMore then Some (Inr result, k, tr)
      else if page_failed (srv k pageCount) then
        if Suc retry < MAX_RETRIES
        then loadEntities_loop srv pageCount hasMore result (Suc retry) (Suc k)
               (tr @ [Request pageCount,
                      Sleep (if Suc retry > 5 then snd RETRY_DELAY else fst RETRY_DELAY)])
        else Some (Inl (Error ''Max retries for data fetching from api-layer exceeded.''), Suc k,
                   tr @ [Request pageCount])
      else loadEntities_loop srv (Suc pageCount)
             (has_more (result @ page_rows (srv k pageCount)) (page_total (srv k pageCount)))
             (result @ page_rows (srv k pageCount)) retry (Suc k)
             (tr @ [Request pageCount]))"

declare loadEntities_loop.simps [code]

subsection \<open>Reading a trace\<close>

text \<open>
  The delay the loops choose after the \<open>r\<close>-th failure: \<open>retry > 5 ? d[1] : d[0]\<close>.
  \<open>retry_trace d q r n\<close> is the trace of a loop that has failed \<open>r\<close> times, keeps
  failing on the request \<open>q\<close> and gives up at the \<open>n\<close>-th failure.
\<close>

definition tiered :: "nat \<times> nat \<Rightarrow> nat \<Rightarrow> nat" where
  "tiered d r = (if r > 5 then snd d else fst d)"

definition retry_trace :: "nat \<times> nat \<Rightarrow> 'q \<Rightarrow> nat \<Rightarrow> nat \<Rightarrow> 'q event list" where
  "retry_trace d q r n = concat (map (\<lambda>i. [Request q, Sleep (tiered d i)]) [Suc r..<n]) @ [Request q]"

definition requests :: "'q event list \<Rightarrow> 'q list" where
  "requests tr = concat (map (\<lambda>ev. case ev of Request q \<Rightarrow> [q] | Sleep ms \<Rightarrow> []) tr)"

text \<open>
  The waits of a trace, in order, and the shape every trace of a finished loop has: a wait
  comes only between two requests, and these two carry the same parameters.
\<close>

fun sleeps :: "'q event list \<Rightarrow> nat list" where
  "sleeps [] = []"
| "sleeps (Request q # es) = sleeps es"
| "sleeps (Sleep ms # es) = ms # sleeps es"

fun well_retried :: "'q event list \<Rightarrow> bool" where
  "well_retried [] = True"
| "well_retried (Sleep ms # es) = False"
| "well_retried [Request q] = True"
| "well_retried (Request q # Request q' # es) = well_retried (Request q' # es)"
| "well_retried [Request q, Sleep ms] = False"
| "well_retried (Request q # Sleep ms # Sleep ms' # es) = False"
| "well_retried (Request q # Sleep ms # Request q' # es) = (q' = q \<and> well_retried (Request q' # es))"

text \<open>
  \<open>retry_suffix d n r suf\<close>: what a loop with delays \<open>d\<close> and budget \<open>n\<close> that has
  failed \<open>r\<close> times so far may still add to its trace.  The \<open>i\<close>-th wait of the whole
  loop lasts \<open>tiered d i\<close>, where \<open>i\<close> counts every failure of the loop so far, and
  fewer than \<open>n\<close> waits are made.
\<close>

definition starts_with :: "'q \<Rightarrow> 'q event list \<Rightarrow> bool" where
  "starts_with q es = (\<exists>es'. es = Request q # es')"

definition retry_suffix :: "nat \<times> nat \<Rightarrow> nat \<Rightarrow> nat \<Rightarrow> 'q event list \<Rightarrow> bool" where
  "retry_suffix d n retry suf =
     (well_retried suf \<and> sleeps suf = map (tiered d) [Suc retry..<Suc retry + length (sleeps suf)]
        \<and> retry + length (sleeps suf) < n)"

definition trace_ok :: "nat \<times> nat \<Rightarrow> nat \<Rightarrow> bool \<Rightarrow> 'q \<Rightarrow> nat \<Rightarrow> 'q event list \<Rightarrow> 'q event list \<Rightarrow> bool" where
  "trace_ok d n opn q retry tr tr' =
     (retry < n \<longrightarrow> (\<exists>suf. tr' = tr @ suf \<and> (opn \<longrightarrow> starts_with q suf) \<and> retry_suffix d n retry suf))"

text \<open>
  What the retry rule asks of a trace, read against the server.  \<open>failed k q\<close> says that
  the \<open>k\<close>-th request of the run, sent with parameters \<open>q\<close>, fails; \<open>f\<close> counts the
  failures of the run so far.  A request that fails with the budget \<open>n\<close> not used up is
  followed by a wait and by the same request again; the wait is the first delay while the
  count of failures, this one included, is at most 5 and the second delay afterwards; a
  request that uses up the budget ends the trace; a request that succeeds is followed by
  no wait and leaves the count as it is.
\<close>

fun obeys :: "nat \<times> nat \<Rightarrow> nat \<Rightarrow> (nat \<Rightarrow> 'q \<Rightarrow> bool) \<Rightarrow> nat \<Rightarrow> nat \<Rightarrow> 'q event list \<Rightarrow> bool" where
  "obeys d n failed f k [] = True"
| "obeys d n failed f k (Sleep ms # es) = False"
| "obeys d n failed f k [Request q] = (if failed k q then n \<le> Suc f else True)"
| "obeys d n failed f k (Request q # Request q' # es) =
     (\<not> failed k q \<and> obeys d n failed f (Suc k) (Request q' # es))"
| "obeys d n failed f k (Request q # Sleep ms # es) =
     (failed k q \<and> Suc f < n \<and> ms = (if Suc f \<le> 5 then fst d else snd d)
      \<and> starts_with q es \<and> obeys d n failed (Suc f) (Suc k) es)"

text \<open>
  \<open>run_ok\<close>: what a loop in a given state may still add to its trace; an open cursor
  starts with its own request.
\<close>

definition run_ok ::
  "nat \<times> nat \<Rightarrow> nat \<Rightarrow> (nat \<Rightarrow> 'q \<Rightarrow> bool) \<Rightarrow> bool \<Rightarrow> 'q \<Rightarrow> nat \<Rightarrow> nat \<Rightarrow> 'q event list \<Rightarrow> 'q event list \<Rightarrow> bool" where
  "run_ok d n failed opn q f k tr tr' =
     (\<exists>suf. tr' = tr @ suf \<and> (opn \<longrightarrow> starts_with q suf) \<and> obeys d n failed f k suf)"

text \<open>The guard \<open>cursor.end\<close> of \<open>getDp\<close>, where it does not throw.\<close>

fun dp_open :: "cursor_info \<Rightarrow> bool" where
  "dp_open NoCursorInfo = False"
| "dp_open (CursorInfo e l) = truthy e"

section \<open>Rows and the cleaning stages of \<open>getCleanedTable\<close>\<close>

text \<open>
  A row is a JSON object, given by its own properties in the order in which JavaScript
  enumerates them (\<open>Object.keys\<close>, the spread \<open>{...row}\<close>, \<open>JSON.stringify\<close>), each name
  once.  Reading a property that is not there gives \<open>undefined\<close>; \<open>delete row[k]\<close> is
  \<open>AList.delete\<close>.
\<close>

type_synonym row = "(string \<times> jsval) list"

definition field :: "row \<Rightarrow> string \<Rightarrow> jsval" where
  "field r k = (case map_of r k of None \<Rightarrow> Undefined | Some v \<Rightarrow> v)"

subsection \<open>Assignment to a property\<close>

text \<open>
  The order of the own properties of an object: the names that are array indices come
  first, in ascending numeric order, then all other names in the order of their creation.
  An array index is the decimal numeral, without leading zeros, of a number below
  \<open>2^32 - 1\<close>.
\<close>

definition index_value :: "string \<Rightarrow> nat" where
  "index_value k = foldl (\<lambda>n c. 10 * n + (of_char c - 48)) 0 k"

definition is_index :: "string \<Rightarrow> bool" where
  "is_index k = (dec (index_value k) = k \<and> index_value k < 4294967295)"

text \<open>
  \<open>define_own k v r\<close>: the own property \<open>k\<close> gets the value \<open>v\<close>.  A property that is there
  keeps its place; a new index goes behind the smaller indices; any other new name goes
  to the end (\<open>AList.update\<close> overwrites in place or appends).
\<close>

definition define_own :: "string \<Rightarrow> jsval \<Rightarrow> row \<Rightarrow> row" where
  "define_own k v r =
     (if map_of r k = None \<and> is_index k
      then filter (\<lambda>p. is_index (fst p) \<and> index_value (fst p) < index_value k) r @ (k, v) #
           filter (\<lambda>p. \<not> (is_index (fst p) \<and> index_value (fst p) < index_value k)) r
      else AList.update k v r)"

text \<open>
  \<open>obj[k] = v\<close> on an object made by a literal or a spread, whose prototype is
  \<open>Object.prototype\<close>.  The flag says whether the object still has that prototype.  The
  name \<open>__proto__\<close> is then the accessor it inherits: assigning \<open>null\<close> takes the prototype
  away, assigning any other primitive does nothing, and in both cases no own property is
  made.  On an object without prototype \<open>__proto__\<close> is a name like any other.
\<close>

definition assign :: "string \<Rightarrow> jsval \<Rightarrow> bool \<times> row \<Rightarrow> bool \<times> row" where
  "assign k v ob =
     (if k = ''__proto__'' \<and> fst ob then (v \<noteq> Null, snd ob)
      else (fst ob, define_own k v (snd ob)))"

subsection \<open>What the stages read\<close>

text \<open>
  \<open>row.sensor\<close> where the code uses it as a property name, always under the guard
  \<open>row.sensor && \<dots>\<close>: the name, if the value is truthy.  A row whose \<open>sensor\<close> is
  absent, \<open>null\<close>, empty, \<open>0\<close> or \<open>false\<close> has none.
\<close>

definition sensor_of :: "row \<Rightarrow> string option" where
  "sensor_of r =
     (if truthy (field r ''sensor'') then Some (property_name (field r ''sensor'')) else None)"

text \<open>
  \<open>parseFloat\<close>: a number is its own value, a string is read by the runtime's parser
  for a leading decimal literal, taken here as the parameter \<open>pf\<close> (\<open>None\<close> for
  \<open>NaN\<close>); \<open>null\<close>, \<open>undefined\<close> and booleans give \<open>NaN\<close>.
\<close>

fun parseFloat :: "(string \<Rightarrow> real option) \<Rightarrow> jsval \<Rightarrow> real option" where
  "parseFloat pf (Num x) = Some x"
| "parseFloat pf (Str s) = pf s"
| "parseFloat pf v = None"

subsection \<open>Device metadata\<close>

record sensor_info =
  sensorId :: string
  sensorName :: string

text \<open>
  A parameter object; a \<open>paramName\<close> that is absent or no string is a name that matches
  none of \<open>m\<close>, \<open>c\<close>, \<open>min\<close>, \<open>max\<close>.
\<close>

record param =
  paramName :: string
  paramValue :: jsval

text \<open>
  The metadata is not copied or checked by the stages, so \<open>metadata.params[row.sensor]\<close>
  is whatever the property lookup finds.  An element of an array is \<open>null\<close> or
  \<open>undefined\<close> (reading its \<open>paramName\<close> throws), another primitive (its \<open>paramName\<close> is
  \<open>undefined\<close>), or an object.  The value found under a sensor name is falsy (absent,
  \<open>null\<close>, \<open>0\<close>, the empty string), an array, or a truthy value that \<open>for \<dots> of\<close> cannot
  iterate: a number, \<open>true\<close>, an object, a function.  A non-empty string is iterated
  character by character and so counts as an array of primitives.
\<close>

datatype element = Nullish | Primitive | Param param

datatype entry = Falsy | Array "element list" | NotIterable

text \<open>
  Of \<open>DeviceMetadata\<close> the stages read \<open>sensors\<close> and \<open>params\<close>; \<open>params md s\<close> is the
  value of \<open>metadata.params[s]\<close>, \<open>Falsy\<close> also when \<open>metadata.params\<close> itself is
  falsy (the guard is \<open>metadata.params && metadata.params[row.sensor]\<close>).
\<close>

record metadata =
  sensors :: "sensor_info list"
  params :: "string \<Rightarrow> entry"

text \<open>
  The lookup \<open>obj[s]\<close> on an object parsed from JSON with the own properties \<open>own\<close>: a
  name that is not its own is looked up in \<open>Object.prototype\<close>, whose members are
  functions, and the prototype object itself under \<open>__proto__\<close>.
\<close>

definition Object_prototype :: "string list" where
  "Object_prototype =
     [''constructor'', ''__defineGetter__'', ''__defineSetter__'', ''hasOwnProperty'',
      ''__lookupGetter__'', ''__lookupSetter__'', ''isPrototypeOf'', ''propertyIsEnumerable'',
      ''toString'', ''valueOf'', ''__proto__'', ''toLocaleString'']"

definition plain_object :: "(string \<Rightarrow> entry option) \<Rightarrow> string \<Rightarrow> entry" where
  "plain_object own s =
     (case own s of
        Some v \<Rightarrow> v
      | None \<Rightarrow> if s \<in> set Object_prototype then NotIterable else Falsy)"

subsection \<open>Stage 3: calibration\<close>

text \<open>
  The four locals \<open>m\<close>, \<open>c\<close>, \<open>min\<close>, \<open>max\<close> of the calibration callback.  For
  \<open>min\<close> and \<open>max\<close>, \<open>None\<close> stands for both \<open>null\<close> and \<open>NaN\<close>: the code only
  asks \<open>min !== null && !isNaN(min)\<close>.
\<close>

record cal =
  cal_m :: real
  cal_c :: real
  cal_min :: "real option"
  cal_max :: "real option"

definition cal_default :: cal where
  "cal_default = \<lparr>cal_m = 1, cal_c = 0, cal_min = None, cal_max = None\<rparr>"

text \<open>
  One round of \<open>for (const param of sensorParams)\<close> on a parameter object.
  \<open>parseFloat(v) || 1\<close> is \<open>1\<close> when the value is \<open>NaN\<close> and also when it is \<open>0\<close>.
\<close>

definition read_param :: "(string \<Rightarrow> real option) \<Rightarrow> cal \<Rightarrow> param \<Rightarrow> cal" where
  "read_param pf cp p =
     (if paramName p = ''m'' then
        cp\<lparr>cal_m := (case parseFloat pf (paramValue p) of None \<Rightarrow> 1 | Some x \<Rightarrow> if x = 0 then 1 else x)\<rparr>
      else if paramName p = ''c'' then
        cp\<lparr>cal_c := (case parseFloat pf (paramValue p) of None \<Rightarrow> 0 | Some x \<Rightarrow> if x = 0 then 0 else x)\<rparr>
      else if paramName p = ''min'' then cp\<lparr>cal_min := parseFloat pf (paramValue p)\<rparr>
      else if paramName p = ''max'' then cp\<lparr>cal_max := parseFloat pf (paramValue p)\<rparr>
      else cp)"

text \<open>
  The loop over the elements of an array; \<open>param.paramName\<close> throws on \<open>null\<close> and
  \<open>undefined\<close>.
\<close>

fun read_elements :: "(string \<Rightarrow> real option) \<Rightarrow> cal \<Rightarrow> element list \<Rightarrow> exn + cal" where
  "read_elements pf cp [] = Inr cp"
| "read_elements pf cp (Nullish # els) =
     Inl (TypeError ''Cannot read properties of null (reading 'paramName')'')"
| "read_elements pf cp (Primitive # els) = read_elements pf cp els"
| "read_elements pf cp (Param p # els) = read_elements pf (read_param pf cp p) els"

text \<open>The loop over an array of parameter objects, where nothing can throw.\<close>

definition read_params :: "(string \<Rightarrow> real option) \<Rightarrow> param list \<Rightarrow> cal" where
  "read_params pf ps = foldl (read_param pf) cal_default ps"

text \<open>\<open>m * rawValue + c\<close>, then \<open>Math.max\<close> with \<open>min\<close>, then \<open>Math.min\<close> with \<open>max\<close>.\<close>

definition calibrated :: "cal \<Rightarrow> real \<Rightarrow> real" where
  "calibrated cp raw =
     (let v0 = cal_m cp * raw + cal_c cp;
          v1 = (case cal_min cp of None \<Rightarrow> v0 | Some lo \<Rightarrow> max v0 lo)
      in (case cal_max cp of None \<Rightarrow> v1 | Some hi \<Rightarrow> min v1 hi))"

text \<open>
  The callback of the stage.  The parameters are read before the value is looked at, so
  an entry that cannot be iterated throws whatever the value is.  \<open>row.value = \<dots>\<close>
  overwrites a property that is there.
\<close>

definition calibrate_row :: "(string \<Rightarrow> real option) \<Rightarrow> metadata \<Rightarrow> row \<Rightarrow> exn + row" where
  "calibrate_row pf md r =
     (case sensor_of r of
        None \<Rightarrow> Inr r
      | Some s \<Rightarrow>
          (case params md s of
             Falsy \<Rightarrow> Inr r
           | NotIterable \<Rightarrow> Inl (TypeError ''sensorParams is not iterable'')
           | Array els \<Rightarrow>
               (case read_elements pf cal_default els of
                  Inl e \<Rightarrow> Inl e
                | Inr cp \<Rightarrow>
                    if field r ''value'' = Null \<or> field r ''value'' = Undefined then Inr r
                    else (case parseFloat pf (field r ''value'') of
                            None \<Rightarrow> Inr r
                          | Some raw \<Rightarrow> Inr (AList.update ''value'' (Num (calibrated cp raw)) r)))))"

text \<open>\<open>cleanedData.map\<close>: the rows in order; the first callback that throws ends the stage.\<close>

fun calibrate :: "(string \<Rightarrow> real option) \<Rightarrow> metadata \<Rightarrow> row list \<Rightarrow> exn + row list" where
  "calibrate pf md [] = Inr []"
| "calibrate pf md (r # rs) =
     (case calibrate_row pf md r of
        Inl e \<Rightarrow> Inl e
      | Inr r' \<Rightarrow> (case calibrate pf md rs of Inl e \<Rightarrow> Inl e | Inr rs' \<Rightarrow> Inr (r' # rs')))"

subsection \<open>Stage 5: aliases\<close>

text \<open>
  \<open>aliasMap[sensor.sensorId] = sensor.sensorName\<close> for every sensor in turn; a later entry
  for the same id wins.  \<open>alias_of\<close> is the test \<open>aliasMap[key]\<close>: an empty name is falsy.
\<close>

definition aliasMap :: "sensor_info list \<Rightarrow> string \<Rightarrow> string option" where
  "aliasMap ss = foldl (\<lambda>m s. m(sensorId s \<mapsto> sensorName s)) Map.empty ss"

definition alias_of :: "(string \<Rightarrow> string option) \<Rightarrow> string \<Rightarrow> string option" where
  "alias_of am k = (case am k of None \<Rightarrow> None | Some a \<Rightarrow> if a = [] then None else Some a)"

text \<open>
  One round of \<open>Object.keys(row).forEach\<close>: the value is read from the original
  \<open>row\<close>, written to \<open>newRow\<close> under the alias, and then \<open>newRow[key]\<close> is deleted.
\<close>

definition rename_key :: "(string \<Rightarrow> string option) \<Rightarrow> row \<Rightarrow> bool \<times> row \<Rightarrow> string \<Rightarrow> bool \<times> row" where
  "rename_key am r newRow key =
     (if key \<noteq> ''sensor'' \<and> key \<noteq> ''time'' \<and> key \<noteq> ''timestamp'' then
        (case alias_of am key of
           None \<Rightarrow> newRow
         | Some a \<Rightarrow> map_prod id (AList.delete key) (assign a (field r key) newRow))
      else newRow)"

text \<open>\<open>newRow\<close> starts as the spread \<open>{...row}\<close>, the same properties in the same order.\<close>

definition alias_row :: "(string \<Rightarrow> string option) \<Rightarrow> row \<Rightarrow> row" where
  "alias_row am r =
     (let newRow = (case sensor_of r of
                      None \<Rightarrow> (True, r)
                    | Some s \<Rightarrow> (case alias_of am s of
                                   None \<Rightarrow> (True, r)
                                 | Some a \<Rightarrow> assign ''sensor'' (Str a) (True, r)))
      in snd (foldl (rename_key am r) newRow (map fst r)))"

definition apply_alias :: "metadata \<Rightarrow> row list \<Rightarrow> row list" where
  "apply_alias md rows = map (alias_row (aliasMap (sensors md))) rows"

subsection \<open>Stage 6: pivot\<close>

text \<open>The grouping key \<open>row.timestamp || row.time\<close>.\<close>

definition group_key :: "row \<Rightarrow> jsval" where
  "group_key r = (if truthy (field r ''timestamp'') then field r ''timestamp'' else field r ''time'')"

text \<open>\<open>[...new Set(xs)]\<close>: the elements of \<open>xs\<close> in order, each kept where it first occurs.\<close>

definition set_of_list :: "'a list \<Rightarrow> 'a list" where
  "set_of_list xs = foldl (\<lambda>acc x. if x \<in> set acc then acc else acc @ [x]) [] xs"

text \<open>One round of \<open>rowsAtTimestamp.forEach\<close>: \<open>pivotedRow[row.sensor] = row.value\<close>.\<close>

definition add_column :: "bool \<times> row \<Rightarrow> row \<Rightarrow> bool \<times> row" where
  "add_column pivotedRow r =
     (case sensor_of r of
        None \<Rightarrow> pivotedRow
      | Some s \<Rightarrow> if field r ''value'' \<noteq> Undefined then assign s (field r ''value'') pivotedRow
                  else pivotedRow)"

text \<open>The row of one grouping key, grown from the literal \<open>{ timestamp }\<close>.\<close>

definition pivot_row :: "row list \<Rightarrow> jsval \<Rightarrow> row" where
  "pivot_row rows ts =
     snd (foldl add_column (True, [(''timestamp'', ts)]) (filter (\<lambda>r. group_key r = ts) rows))"

definition pivot :: "row list \<Rightarrow> row list" where
  "pivot rows = map (pivot_row rows) (set_of_list (map group_key rows))"

subsection \<open>What the stages are to do\<close>

text \<open>
  What the metadata configures for a sensor: the value of the last parameter with a given
  name, and the slope, intercept and bounds the calibration derives from it.
\<close>

definition last_param :: "string \<Rightarrow> param list \<Rightarrow> jsval option" where
  "last_param n ps =
     (if filter (\<lambda>p. paramName p = n) ps = [] then None
      else Some (paramValue (last (filter (\<lambda>p. paramName p = n) ps))))"

definition slope_of :: "(string \<Rightarrow> real option) \<Rightarrow> param list \<Rightarrow> real" where
  "slope_of pf ps =
     (case last_param ''m'' ps of
        None \<Rightarrow> 1
      | Some v \<Rightarrow> (case parseFloat pf v of None \<Rightarrow> 1 | Some x \<Rightarrow> if x = 0 then 1 else x))"

definition intercept_of :: "(string \<Rightarrow> real option) \<Rightarrow> param list \<Rightarrow> real" where
  "intercept_of pf ps =
     (case last_param ''c'' ps of
        None \<Rightarrow> 0
      | Some v \<Rightarrow> (case parseFloat pf v of None \<Rightarrow> 0 | Some x \<Rightarrow> x))"

definition bound_of :: "string \<Rightarrow> (string \<Rightarrow> real option) \<Rightarrow> param list \<Rightarrow> real option" where
  "bound_of n pf ps = (case last_param n ps of None \<Rightarrow> None | Some v \<Rightarrow> parseFloat pf v)"

text \<open>The lower clamp, then the upper clamp, each only where the bound is defined.\<close>

definition clamp :: "real option \<Rightarrow> real option \<Rightarrow> real \<Rightarrow> real" where
  "clamp lo hi x =
     (case hi of
        None \<Rightarrow> (case lo of None \<Rightarrow> x | Some l \<Rightarrow> max x l)
      | Some h \<Rightarrow> min (case lo of None \<Rightarrow> x | Some l \<Rightarrow> max x l) h)"

text \<open>
  The parameter objects among the elements of an array, and the records on which the
  calibration callback runs through: the entry found under the record's sensor name is falsy
  or an array without \<open>null\<close> and \<open>undefined\<close>.
\<close>

fun objects :: "element list \<Rightarrow> param list" where
  "objects [] = []"
| "objects (Param p # els) = p # objects els"
| "objects (el # els) = objects els"

definition regular :: "metadata \<Rightarrow> row \<Rightarrow> bool" where
  "regular md r =
     (case sensor_of r of
        None \<Rightarrow> True
      | Some s \<Rightarrow> (case params md s of
                     Falsy \<Rightarrow> True
                   | Array els \<Rightarrow> Nullish \<notin> set els
                   | NotIterable \<Rightarrow> False))"

text \<open>
  First-seen order, stated on its own: the head stays, its later copies go.  A record
  reports a column when it has a sensor and a value.
\<close>

fun first_seen :: "'a list \<Rightarrow> 'a list" where
  "first_seen [] = []"
| "first_seen (x # xs) = x # filter (\<lambda>y. y \<noteq> x) (first_seen xs)"

definition reports :: "row \<Rightarrow> bool" where
  "reports r = (sensor_of r \<noteq> None \<and> field r ''value'' \<noteq> Undefined)"

definition reporting :: "row list \<Rightarrow> jsval \<Rightarrow> row list" where
  "reporting rows k = filter (\<lambda>r. group_key r = k \<and> reports r) rows"

definition last_value :: "row list \<Rightarrow> string \<Rightarrow> jsval option" where
  "last_value rs s =
     (if filter (\<lambda>r. sensor_of r = Some s) rs = [] then None
      else Some (field (last (filter (\<lambda>r. sensor_of r = Some s) rs)) ''value''))"

text \<open>
  The order of the own properties, stated on its own for names in the order of their
  creation: the indices sorted by their value, then the other names as they came.
\<close>

definition own_order :: "string list \<Rightarrow> string list" where
  "own_order ks = sort_key index_value (filter is_index ks) @ filter (\<lambda>k. \<not> is_index k) ks"

section \<open>\<open>timeToUnix\<close>\<close>

text \<open>\<open>time <= 0\<close>; a comparison with \<open>NaN\<close> is false.\<close>

fun nonpositive :: "number \<Rightarrow> bool" where
  "nonpositive NaN = False"
| "nonpositive Infinity = False"
| "nonpositive NegInfinity = True"
| "nonpositive (Finite m e) = (m \<le> 0)"

text \<open>
  The value of a number as the arithmetic after \<open>timeToUnix\<close> sees it, \<open>None\<close> for
  \<open>NaN\<close>.  The infinities never get there: their strings have at most 9 characters.
\<close>

fun number_value :: "number \<Rightarrow> real option" where
  "number_value (Finite m e) =
     Some (if 0 \<le> e then of_int m * 10 ^ nat e else of_int m / 10 ^ nat (- e))"
| "number_value x = None"

text \<open>
  The argument of \<open>timeToUnix\<close>: \<open>null\<close> or \<open>undefined\<close>, a number, a string, a
  \<open>Date\<close> (with its time value, \<open>None\<close> for an invalid date, whose \<open>getTime()\<close> is
  \<open>NaN\<close>), or anything else.
\<close>

datatype time_input = TNull | TNumber number | TString string | TDate "int option" | TOther

text \<open>
  \<open>now\<close> is the clock, \<open>parse\<close> the runtime's \<open>new Date(string).getTime()\<close>.  The
  result is the epoch value, \<open>None\<close> for \<open>NaN\<close> (the time of an invalid \<open>Date\<close>).
\<close>

fun timeToUnix :: "int \<Rightarrow> (string \<Rightarrow> int option) \<Rightarrow> time_input \<Rightarrow> exn + real option" where
  "timeToUnix now parse TNull = Inr (Some (of_int now))"
| "timeToUnix now parse (TNumber time) =
     (if nonpositive time \<or> length (number_string time) \<le> 10
      then Inl (Error ''Unix timestamp must be a positive integer in milliseconds, not seconds.'')
      else Inr (number_value time))"
| "timeToUnix now parse (TString s) =
     (case parse s of
        None \<Rightarrow> Inl (Error ''Invalid date string'')
      | Some t \<Rightarrow> Inr (Some (of_int t)))"
| "timeToUnix now parse (TDate d) = Inr (map_option of_int d)"
| "timeToUnix now parse TOther = Inl (Error ''Time must be a string, number, Date object, or null'')"

text \<open>The number of decimal digits of a positive integer.\<close>

definition decimal_digits :: "int \<Rightarrow> nat" where
  "decimal_digits x = length (dec (nat x))"

text \<open>What instant an accepted argument denotes.\<close>

fun denotes :: "(string \<Rightarrow> int option) \<Rightarrow> time_input \<Rightarrow> int \<Rightarrow> bool" where
  "denotes parse (TNumber x) t = (number_value x = Some (of_int t))"
| "denotes parse (TString s) t = (parse s = Some t)"
| "denotes parse (TDate d) t = (d = Some t)"
| "denotes parse TNull t = False"
| "denotes parse TOther t = False"

section \<open>The operations and their error boundaries\<close>

text \<open>
  An awaited \<open>axios\<close> call either rejects with an error or yields what the code reads off
  the response.  An operation, being \<open>async\<close>, either resolves with a value (\<open>Inr\<close>) or
  rejects with the error thrown (\<open>Inl\<close>).  Each operation is modelled in two steps: the
  body of its \<open>try\<close>, named \<open>_try\<close>, and the operation itself, which adds the \<open>catch\<close>.
\<close>

type_synonym 'a http = "exn + 'a"

subsection \<open>\<open>DataAccess\<close>: single requests\<close>



definition getDeviceDetails_try :: "'d option http \<Rightarrow> exn + 'd option" where
  "getDeviceDetails_try response =
     (case response of
        Inl e \<Rightarrow> Inl e
      | Inr None \<Rightarrow> Inl (Error ''Missing data in response'')
      | Inr (Some d) \<Rightarrow> Inr (Some d))"

definition getDeviceDetails :: "'d option http \<Rightarrow> exn + 'd option" where
  "getDeviceDetails response = (case getDeviceDetails_try response of Inl e \<Rightarrow> Inr None | Inr d \<Rightarrow> Inr d)"

definition getDeviceMetaData_try :: "'m option http \<Rightarrow> exn + 'm option" where
  "getDeviceMetaData_try response =
     (case response of
        Inl e \<Rightarrow> Inl e
      | Inr None \<Rightarrow> Inl (Error ''Missing data in response'')
      | Inr (Some d) \<Rightarrow> Inr (Some d))"

definition getDeviceMetaData :: "'m option http \<Rightarrow> exn + 'm option" where
  "getDeviceMetaData response = (case getDeviceMetaData_try response of Inl e \<Rightarrow> Inr None | Inr d \<Rightarrow> Inr d)"

subsection \<open>\<open>DataAccess\<close>: the steps the orchestrators share\<close>

text \<open>
  The device check: \<open>devices\<close> is what \<open>getDeviceDetails\<close> resolved with, the list of
  \<open>devID\<close>s or \<open>{}\<close>; \<open>message\<close> is the operation's wording for a missing device.
\<close>

definition verify_device :: "string list option \<Rightarrow> string \<Rightarrow> string \<Rightarrow> exn + unit" where
  "verify_device devices deviceId message =
     (case devices of
        None \<Rightarrow> Inl (Error ''Failed to fetch device details'')
      | Some ids \<Rightarrow> if deviceId \<in> set ids then Inr () else Inl (Error message))"

text \<open>
  The sensor list: the caller's list if one was given (any array, even an empty one, is
  truthy); else \<open>getDeviceMetaData\<close> is awaited and the sensor ids of the metadata are
  taken.  \<open>message\<close> is the operation's wording for a device without sensors.
\<close>

definition resolve_sensors ::
  "string list option \<Rightarrow> metadata option http \<Rightarrow> string \<Rightarrow> exn + (string list \<times> metadata option)" where
  "resolve_sensors sensorList metadata_http message =
     (case sensorList of
        Some finalSensorList \<Rightarrow> Inr (finalSensorList, None)
      | None \<Rightarrow>
          (case getDeviceMetaData metadata_http of
             Inl e \<Rightarrow> Inl e
           | Inr None \<Rightarrow> Inl (Error ''Failed to fetch device metadata'')
           | Inr (Some md) \<Rightarrow>
               if map sensorId (sensors md) = [] then Inl (Error message)
               else Inr (map sensorId (sensors md), Some md)))"

subsection \<open>\<open>getFirstDp\<close>\<close>



subsection \<open>\<open>getDp\<close>\<close>

text \<open>The \<open>for (const sensor of finalSensorList)\<close> loop around the cursor walk.\<close>

fun getDp_sensors ::
  "(nat \<Rightarrow> dp_request \<Rightarrow> ('r, cursor_info) response) \<Rightarrow> cursor_info \<Rightarrow> string list \<Rightarrow> 'r list
     \<Rightarrow> nat \<Rightarrow> dp_request event list \<Rightarrow> ((exn + 'r list) \<times> nat \<times> dp_request event list) option" where
  "getDp_sensors srv cursor [] allData k tr = Some (Inr allData, k, tr)"
| "getDp_sensors srv cursor (sensor # rest) allData k tr =
     (case getDp_loop srv sensor cursor allData 0 k tr of
        None \<Rightarrow> None
      | Some (Inl e, k', tr') \<Rightarrow> Some (Inl e, k', tr')
      | Some (Inr allData', k', tr') \<Rightarrow> getDp_sensors srv cursor rest allData' k' tr')"

text \<open>
  The steps of \<open>getDp\<close> before its loops; the result is the cursor every sensor starts
  from, \<open>{end: unixEnd, limit: n}\<close> with \<open>unixEnd = Math.floor(timeToUnix(endTime) / 1000)\<close>,
  or \<open>None\<close> when \<open>unixEnd\<close> is \<open>NaN\<close> (an invalid \<open>Date\<close>), a falsy \<open>cursor.end\<close>
  with which no loop is entered.
\<close>

definition getDp_prepare ::
  "int \<Rightarrow> (string \<Rightarrow> int option) \<Rightarrow> string list option http \<Rightarrow> metadata option http
     \<Rightarrow> string \<Rightarrow> string list option \<Rightarrow> time_input \<Rightarrow> int
     \<Rightarrow> exn + (string list \<times> metadata option \<times> cursor_info option)" where
  "getDp_prepare now parse devices_http metadata_http deviceId sensorList endTime n =
     (if n < 1 then Inl (Error ''Parameter 'n' must be >= 1'')
      else (case getDeviceDetails devices_http of
              Inl e \<Rightarrow> Inl e
            | Inr devices \<Rightarrow>
      (case verify_device devices deviceId ''Device not added in account'' of
         Inl e \<Rightarrow> Inl e
       | Inr u \<Rightarrow>
      (case resolve_sensors sensorList metadata_http ''No sensor data available.'' of
         Inl e \<Rightarrow> Inl e
       | Inr (finalSensorList, metadata) \<Rightarrow>
      (case timeToUnix now parse endTime of
         Inl e \<Rightarrow> Inl e
       | Inr None \<Rightarrow> Inr (finalSensorList, metadata, None)
       | Inr (Some ms) \<Rightarrow>
           Inr (finalSensorList, metadata,
                Some (CursorInfo (Num (of_int \<lfloor>ms / 1000\<rfloor>)) (Num (of_int n)))))))))"

text \<open>
  \<open>format\<close> stands for \<open>formatSensorData\<close>, \<open>clean\<close> for the call of
  \<open>getCleanedTable\<close>.  The result carries the trace of requests and waits.
\<close>

definition getDp_try ::
  "int \<Rightarrow> (string \<Rightarrow> int option) \<Rightarrow> string list option http \<Rightarrow> metadata option http
     \<Rightarrow> (nat \<Rightarrow> dp_request \<Rightarrow> ('r, cursor_info) response) \<Rightarrow> ('r list \<Rightarrow> row list)
     \<Rightarrow> (string list \<Rightarrow> metadata option \<Rightarrow> row list \<Rightarrow> exn + row list)
     \<Rightarrow> string \<Rightarrow> string list option \<Rightarrow> time_input \<Rightarrow> int
     \<Rightarrow> ((exn + row list) \<times> dp_request event list) option" where
  "getDp_try now parse devices_http metadata_http srv format clean deviceId sensorList endTime n =
     (case getDp_prepare now parse devices_http metadata_http deviceId sensorList endTime n of
        Inl e \<Rightarrow> Some (Inl e, [])
      | Inr (finalSensorList, metadata, None) \<Rightarrow> Some (Inr [], [])
      | Inr (finalSensorList, metadata, Some cursor) \<Rightarrow>
          (case getDp_sensors srv cursor finalSensorList [] 0 [] of
             None \<Rightarrow> None
           | Some (Inl e, k, tr) \<Rightarrow> Some (Inl e, tr)
           | Some (Inr allData, k, tr) \<Rightarrow>
               if allData \<noteq> [] then Some (clean finalSensorList metadata (format allData), tr)
               else Some (Inr [], tr)))"

definition getDp ::
  "int \<Rightarrow> (string \<Rightarrow> int option) \<Rightarrow> string list option http \<Rightarrow> metadata option http
     \<Rightarrow> (nat \<Rightarrow> dp_request \<Rightarrow> ('r, cursor_info) response) \<Rightarrow> ('r list \<Rightarrow> row list)
     \<Rightarrow> (string list \<Rightarrow> metadata option \<Rightarrow> row list \<Rightarrow> exn + row list)
     \<Rightarrow> string \<Rightarrow> string list option \<Rightarrow> time_input \<Rightarrow> int
     \<Rightarrow> ((exn + row list) \<times> dp_request event list) option" where
  "getDp now parse devices_http metadata_http srv format clean deviceId sensorList endTime n =
     (case getDp_try now parse devices_http metadata_http srv format clean deviceId sensorList endTime n of
        None \<Rightarrow> None
      | Some (Inl err, tr) \<Rightarrow> Some (Inr [], tr)
      | Some (Inr v, tr) \<Rightarrow> Some (Inr v, tr))"

subsection \<open>\<open>_influxdb\<close> and \<open>dataQuery\<close>\<close>







subsection \<open>\<open>getLoadEntities\<close>\<close>

record load_entity =
  entity_id :: string
  entity_name :: string

text \<open>\<open>clusters\<close> is \<open>None\<close> for \<open>null\<close>; the check of an empty list comes first.\<close>

definition getLoadEntities_try ::
  "(nat \<Rightarrow> nat \<Rightarrow> load_entity page_response) \<Rightarrow> string list option
     \<Rightarrow> ((exn + load_entity list) \<times> nat event list) option" where
  "getLoadEntities_try srv clusters =
     (if clusters = Some [] then Some (Inl (Error ''No clusters provided.''), [])
      else (case loadEntities_loop srv 1 True [] 0 0 [] of
              None \<Rightarrow> None
            | Some (Inl e, k, tr) \<Rightarrow> Some (Inl e, tr)
            | Some (Inr result, k, tr) \<Rightarrow>
                (case clusters of
                   Some cs \<Rightarrow>
                     Some (Inr (filter (\<lambda>item. entity_name item \<in> set cs \<or> entity_id item \<in> set cs) result), tr)
                 | None \<Rightarrow> Some (Inr result, tr))))"

definition getLoadEntities ::
  "(nat \<Rightarrow> nat \<Rightarrow> load_entity page_response) \<Rightarrow> string list option
     \<Rightarrow> ((exn + load_entity list) \<times> nat event list) option" where
  "getLoadEntities srv clusters =
     (case getLoadEntities_try srv clusters of
        None \<Rightarrow> None
      | Some (Inl error, tr) \<Rightarrow> Some (Inr [], tr)
      | Some (Inr v, tr) \<Rightarrow> Some (Inr v, tr))"

subsection \<open>\<open>EventsHandler\<close>\<close>









text \<open>
  \<open>getDetailedEvent\<close> walks pages in a \<open>while (true)\<close> without retries.  A page is
  rejected, or carries \<open>success === false\<close>, the rows \<open>data?.data || []\<close> and the count
  \<open>data?.totalCount || 0\<close>.  The loop records the page numbers it asks for.
\<close>

datatype 'v event_page = EventPage (ep_failure: bool) (ep_rows: "'v list") (ep_totalCount: int)


















subsection \<open>Error boundaries\<close>



section \<open>Properties\<close>

subsection \<open>Numerals\<close>


lemma dec_numeral:
  "dec (numeral k) =
     (if (numeral k :: nat) < 10 then [digit (numeral k)]
      else dec (numeral k div 10) @ [digit (numeral k mod 10)])"
  by (rule dec.simps)

lemma dec_small: "dec 0 = ''0''" "dec 1 = ''1''" "dec (Suc 0) = ''1''"
  by (simp_all add: dec.simps digit_def)

lemma strip_numeral:
  "strip (numeral k) e =
     (if (numeral k :: nat) mod 10 = 0 then strip (numeral k div 10) (e + 1) else (numeral k, e))"
  by (subst strip.simps) simp

lemma strip_small: "strip 0 e = (0, e)" "strip 1 e = (1, e)" "strip (Suc 0) e = (Suc 0, e)"
  by (simp_all add: strip.simps)

lemma decimal_of_numeral:
  "decimal_of (numeral k) x e =
     (if of_int \<lfloor>x\<rfloor> = x then Finite \<lfloor>x\<rfloor> e else decimal_of (pred_numeral k) (x * 10) (e - 1))"
  by (simp add: numeral_eq_Suc)

lemma replicate_numeral: "replicate (numeral k) x = x # replicate (pred_numeral k) x"
  by (simp add: numeral_eq_Suc)

lemma property_name_examples:
  "property_name (Num 5) = ''5''"
  "property_name (Num 2.5) = ''2.5''"
  "property_name (Num (- 120)) = ''-120''"
  "property_name (Num 0.001) = ''0.001''"
  by (simp_all add: decimal_of_numeral positive_string_def strip_numeral strip_small dec_small
      dec_numeral digit_def replicate_numeral)

subsection \<open>Retry budget\<close>

lemma retry_trace_last: "Suc r \<ge> n \<Longrightarrow> retry_trace d q r n = [Request q]"
  by (simp add: retry_trace_def)

lemma retry_trace_step:
  "Suc r < n \<Longrightarrow> retry_trace d q r n = [Request q, Sleep (tiered d (Suc r))] @ retry_trace d q (Suc r) n"
  by (simp add: retry_trace_def upt_conv_Cons)

lemma getDp_loop_exhaust:
  assumes fail: "\<forall>k q. dp_failed (srv k q)" and op: "truthy e"
  shows "retry < MAX_RETRIES \<Longrightarrow>
    getDp_loop srv sensor (CursorInfo e l) allData retry k tr =
      Some (Inl (Error ''Max retries reached while calling url''), k + (MAX_RETRIES - retry),
            tr @ retry_trace RETRY_DELAY (sensor, e, l) retry MAX_RETRIES)"
proof (induction "MAX_RETRIES - Suc retry" arbitrary: retry k tr)
  case 0
  then have "Suc retry = MAX_RETRIES" by simp
  then show ?case using fail op
    by (subst getDp_loop.simps) (simp add: retry_trace_last)
next
  case (Suc n)
  then have lt: "Suc retry < MAX_RETRIES" and n: "n = MAX_RETRIES - Suc (Suc retry)" by simp_all
  have "getDp_loop srv sensor (CursorInfo e l) allData retry k tr =
        getDp_loop srv sensor (CursorInfo e l) allData (Suc retry) (Suc k)
          (tr @ [Request (sensor, e, l), Sleep (tiered RETRY_DELAY (Suc retry))])"
    using fail op lt by (subst getDp_loop.simps) (simp add: tiered_def)
  also have "\<dots> = Some (Inl (Error ''Max retries reached while calling url''), Suc k + (MAX_RETRIES - Suc retry),
            (tr @ [Request (sensor, e, l), Sleep (tiered RETRY_DELAY (Suc retry))]) @ retry_trace RETRY_DELAY (sensor, e, l) (Suc retry) MAX_RETRIES)"
    using Suc.hyps(1)[OF n] lt by simp
  finally show ?case using lt by (simp add: retry_trace_step)
qed


lemma influx_loop_exhaust:
  assumes fail: "\<forall>k q. influx_failed (srv k q)" and op: "cursor_open cursor"
  shows "retry < MAX_RETRIES_INFLUX \<Longrightarrow>
    influx_loop srv cursor allData retry k tr =
      Some (Inl (Error ''Max retries reached fetching data.''), k + (MAX_RETRIES_INFLUX - retry),
            tr @ retry_trace RETRY_DELAY_INFLUX (cd_start cursor, cd_end cursor) retry MAX_RETRIES_INFLUX)"
proof (induction "MAX_RETRIES_INFLUX - Suc retry" arbitrary: retry k tr)
  case 0
  then have "Suc retry = MAX_RETRIES_INFLUX" by simp
  then show ?case using fail op
    by (subst influx_loop.simps) (simp add: retry_trace_last)
next
  case (Suc n)
  then have lt: "Suc retry < MAX_RETRIES_INFLUX" and n: "n = MAX_RETRIES_INFLUX - Suc (Suc retry)"
    by simp_all
  have "influx_loop srv cursor allData retry k tr =
        influx_loop srv cursor allData (Suc retry) (Suc k)
          (tr @ [Request (cd_start cursor, cd_end cursor), Sleep (tiered RETRY_DELAY_INFLUX (Suc retry))])"
    using fail op lt by (subst influx_loop.simps) (simp add: tiered_def)
  also have "\<dots> = Some (Inl (Error ''Max retries reached fetching data.''),
            Suc k + (MAX_RETRIES_INFLUX - Suc retry),
            (tr @ [Request (cd_start cursor, cd_end cursor), Sleep (tiered RETRY_DELAY_INFLUX (Suc retry))])
              @ retry_trace RETRY_DELAY_INFLUX (cd_start cursor, cd_end cursor) (Suc retry) MAX_RETRIES_INFLUX)"
    using Suc.hyps(1)[OF n] lt by simp
  finally show ?case using lt by (simp add: retry_trace_step)
qed

lemma loadEntities_loop_exhaust:
  assumes fail: "\<forall>k q. page_failed (srv k q)"
  shows "retry < MAX_RETRIES \<Longrightarrow>
    loadEntities_loop srv pageCount True result retry k tr =
      Some (Inl (Error ''Max retries for data fetching from api-layer exceeded.''),
            k + (MAX_RETRIES - retry), tr @ retry_trace RETRY_DELAY pageCount retry MAX_RETRIES)"
proof (induction "MAX_RETRIES - Suc retry" arbitrary: retry k tr)
  case 0
  then have "Suc retry = MAX_RETRIES" by simp
  then show ?case using fail
    by (subst loadEntities_loop.simps) (simp add: retry_trace_last)
next
  case (Suc n)
  then have lt: "Suc retry < MAX_RETRIES" and n: "n = MAX_RETRIES - Suc (Suc retry)" by simp_all
  have "loadEntities_loop srv pageCount True result retry k tr =
        loadEntities_loop srv pageCount True result (Suc retry) (Suc k)
          (tr @ [Request pageCount, Sleep (tiered RETRY_DELAY (Suc retry))])"
    using fail lt by (subst loadEntities_loop.simps) (simp add: tiered_def)
  also have "\<dots> = Some (Inl (Error ''Max retries for data fetching from api-layer exceeded.''),
            Suc k + (MAX_RETRIES - Suc retry),
            (tr @ [Request pageCount, Sleep (tiered RETRY_DELAY (Suc retry))])
              @ retry_trace RETRY_DELAY pageCount (Suc retry) MAX_RETRIES)"
    using Suc.hyps(1)[OF n] lt by simp
  finally show ?case using lt by (simp add: retry_trace_step)
qed

lemma requests_retry_trace: "r < n \<Longrightarrow> requests (retry_trace d q r n) = replicate (n - r) q"
proof (induction "n - Suc r" arbitrary: r)
  case 0
  then have "n = Suc r" by simp
  then show ?case by (simp add: retry_trace_last requests_def)
next
  case (Suc m)
  then have lt: "Suc r < n" and m: "m = n - Suc (Suc r)" by simp_all
  have "requests (retry_trace d q (Suc r) n) = replicate (n - Suc r) q"
    using Suc.hyps(1)[OF m] lt by simp
  then show ?case using lt
    by (simp add: retry_trace_step requests_def Suc_diff_Suc del: replicate_Suc flip: replicate_Suc)
qed

text \<open>
  Claim C1.  When every attempt fails (the request is rejected or the body reports an error),
  a fetch loop that is entered ends: \<open>getDp\<close>'s per-sensor loop and the page loop of
  \<open>getLoadEntities\<close> make exactly 15 requests, the loop of \<open>_influxdb\<close> exactly 8,
  all with the same parameters, and the loop then throws its retries-exhausted error; no
  rows are returned.  The page loop is always entered; the two cursor loops are entered
  when the cursor they start from is open.
\<close>

theorem fetch_loops_exhaust_retry_budget:
  fixes srvD :: "nat \<Rightarrow> dp_request \<Rightarrow> ('r, cursor_info) response"
    and srvI :: "nat \<Rightarrow> influx_request \<Rightarrow> ('r, cursor_data) response"
    and srvL :: "nat \<Rightarrow> nat \<Rightarrow> 'r page_response"
  assumes "\<forall>k q. dp_failed (srvD k q)" and "\<forall>k q. influx_failed (srvI k q)"
    and "\<forall>k q. page_failed (srvL k q)" and "truthy e" and "cursor_open c"
  shows "getDp_loop srvD sensor (CursorInfo e l) [] 0 0 [] =
           Some (Inl (Error ''Max retries reached while calling url''), 15,
                 retry_trace (2, 4) (sensor, e, l) 0 15)
       \<and> requests (retry_trace (2, 4) (sensor, e, l) 0 15) = replicate 15 (sensor, e, l)
       \<and> loadEntities_loop srvL 1 True [] 0 0 [] =
           Some (Inl (Error ''Max retries for data fetching from api-layer exceeded.''), 15,
                 retry_trace (2, 4) 1 0 15)
       \<and> requests (retry_trace (2, 4) (1::nat) 0 15) = replicate 15 1
       \<and> influx_loop srvI c [] 0 0 [] =
           Some (Inl (Error ''Max retries reached fetching data.''), 8,
                 retry_trace (2000, 10000) (cd_start c, cd_end c) 0 8)
       \<and> requests (retry_trace (2000, 10000) (cd_start c, cd_end c) 0 8) = replicate 8 (cd_start c, cd_end c)"
  using getDp_loop_exhaust[OF assms(1) assms(4), of 0 sensor l "[]" 0 "[]"]
    influx_loop_exhaust[OF assms(2) assms(5), of 0 "[]" 0 "[]"]
    loadEntities_loop_exhaust[OF assms(3), of 0 1 "[]" 0 "[]"]
  by (simp add: MAX_RETRIES_def MAX_RETRIES_INFLUX_def RETRY_DELAY_def RETRY_DELAY_INFLUX_def
      requests_retry_trace)

theorem fetch_loops_exhaust_retry_budget_witness:
  "getDp_loop (\<lambda>k q. Rejected) ''D5'' (CursorInfo (Num 1717180320) (Num 2)) ([]::nat list) 0 0 [] =
           Some (Inl (Error ''Max retries reached while calling url''), 15,
                 retry_trace (2, 4) (''D5'', Num 1717180320, Num 2) 0 15)
       \<and> loadEntities_loop (\<lambda>k q. PageRejected) 1 True ([]::nat list) 0 0 [] =
           Some (Inl (Error ''Max retries for data fetching from api-layer exceeded.''), 15,
                 retry_trace (2, 4) 1 0 15)
       \<and> influx_loop (\<lambda>k q. Response True NoData NoCursorData) (CursorData (Num 1717180320000) (Num 1717180380000)) ([]::nat list) 0 0 [] =
           Some (Inl (Error ''Max retries reached fetching data.''), 8,
                 retry_trace (2000, 10000) (Num 1717180320000, Num 1717180380000) 0 8)"
  using fetch_loops_exhaust_retry_budget[where 'r = nat, of "\<lambda>k q. Rejected" "\<lambda>k q. Response True NoData NoCursorData"
       "\<lambda>k q. PageRejected" "Num 1717180320" "CursorData (Num 1717180320000) (Num 1717180380000)" "''D5''" "Num 2"]
  by simp

subsection \<open>Delays between retries\<close>

lemma sleeps_append: "sleeps (xs @ ys) = sleeps xs @ sleeps ys"
  by (induction xs rule: sleeps.induct) auto

lemma retry_suffix_Nil: "retry < n \<Longrightarrow> retry_suffix d n retry []"
  by (simp add: retry_suffix_def)

lemma retry_suffix_single: "retry < n \<Longrightarrow> retry_suffix d n retry [Request q]"
  by (simp add: retry_suffix_def)

lemma well_retried_Request: "well_retried suf \<Longrightarrow> well_retried (Request q # suf)"
  by (cases suf rule: well_retried.cases) auto

lemma retry_suffix_success: "retry_suffix d n retry suf \<Longrightarrow> retry_suffix d n retry (Request q # suf)"
  by (simp add: retry_suffix_def well_retried_Request)

lemma retry_suffix_failure:
  assumes "retry_suffix d n (Suc retry) suf" and "starts_with q suf"
  shows "retry_suffix d n retry (Request q # Sleep (tiered d (Suc retry)) # suf)"
proof -
  let ?m = "length (sleeps suf)"
  obtain es where suf: "suf = Request q # es" using assms(2) by (auto simp: starts_with_def)
  have w: "well_retried (Request q # Sleep (tiered d (Suc retry)) # suf)"
    using assms(1) by (simp add: retry_suffix_def suf)
  have "sleeps suf = map (tiered d) [Suc (Suc retry)..<Suc (Suc retry) + ?m]"
    using assms(1) by (simp add: retry_suffix_def)
  moreover have "[Suc retry..<Suc retry + Suc ?m] = Suc retry # [Suc (Suc retry)..<Suc (Suc retry) + ?m]"
    using upt_conv_Cons[of "Suc retry" "Suc retry + Suc ?m"] by simp
  ultimately have s: "sleeps (Request q # Sleep (tiered d (Suc retry)) # suf) =
      map (tiered d) [Suc retry..<Suc retry + length (sleeps (Request q # Sleep (tiered d (Suc retry)) # suf))]"
    by simp
  have "retry + length (sleeps (Request q # Sleep (tiered d (Suc retry)) # suf)) < n"
    using assms(1) by (simp add: retry_suffix_def)
  with w s show ?thesis unfolding retry_suffix_def by blast
qed

lemma trace_ok_stop: "tr' = tr \<Longrightarrow> trace_ok d n False q retry tr tr'"
  by (simp add: trace_ok_def retry_suffix_Nil)

lemma trace_ok_giveup: "tr' = tr @ [Request q] \<Longrightarrow> trace_ok d n opn q retry tr tr'"
  by (auto simp: trace_ok_def retry_suffix_single starts_with_def)

lemma trace_ok_again:
  assumes "trace_ok d n True q (Suc retry) (tr @ [Request q, Sleep (tiered d (Suc retry))]) tr'"
    and "Suc retry < n"
  shows "trace_ok d n opn q retry tr tr'"
proof -
  from assms obtain suf where
    suf: "tr' = (tr @ [Request q, Sleep (tiered d (Suc retry))]) @ suf" "starts_with q suf"
      "retry_suffix d n (Suc retry) suf"
    by (auto simp: trace_ok_def)
  have "tr' = tr @ (Request q # Sleep (tiered d (Suc retry)) # suf)" using suf(1) by simp
  moreover have "starts_with q (Request q # Sleep (tiered d (Suc retry)) # suf)"
    by (simp add: starts_with_def)
  ultimately show ?thesis using retry_suffix_failure[OF suf(3) suf(2)]
    unfolding trace_ok_def by blast
qed

lemma trace_ok_page:
  assumes "trace_ok d n opn' q' retry (tr @ [Request q]) tr'"
  shows "trace_ok d n opn q retry tr tr'"
proof (unfold trace_ok_def, intro impI)
  assume r: "retry < n"
  with assms obtain suf where
    suf: "tr' = (tr @ [Request q]) @ suf" "retry_suffix d n retry suf"
    by (auto simp: trace_ok_def)
  have "tr' = tr @ (Request q # suf)" using suf(1) by simp
  moreover have "starts_with q (Request q # suf)" by (simp add: starts_with_def)
  ultimately show "\<exists>suf. tr' = tr @ suf \<and> (opn \<longrightarrow> starts_with q suf) \<and> retry_suffix d n retry suf"
    using retry_suffix_success[OF suf(2)] by blast
qed

lemma influx_loop_trace:
  assumes run: "influx_loop srv cursor allData retry k tr = Some y"
  shows "trace_ok RETRY_DELAY_INFLUX MAX_RETRIES_INFLUX (cursor_open cursor) (cd_start cursor, cd_end cursor)
           retry tr (snd (snd y))"
proof (rule influx_loop.raw_induct[where P = "\<lambda>srv cursor allData retry k tr y.
          trace_ok RETRY_DELAY_INFLUX MAX_RETRIES_INFLUX (cursor_open cursor) (cd_start cursor, cd_end cursor)
            retry tr (snd (snd y))", OF _ run], goal_cases)
  case (1 loop srv cursor allData retry k tr y)
  let ?q = "(cd_start cursor, cd_end cursor)"
  note body = "1"(2)
  consider (closed) "\<not> cursor_open cursor"
    | (giveup) "cursor_open cursor" "influx_failed (srv k ?q)" "\<not> Suc retry < MAX_RETRIES_INFLUX"
    | (again) "cursor_open cursor" "influx_failed (srv k ?q)" "Suc retry < MAX_RETRIES_INFLUX"
    | (page) "cursor_open cursor" "\<not> influx_failed (srv k ?q)"
    by blast
  then show ?case
  proof cases
    case closed
    then have "snd (snd y) = tr" using body by auto
    then show ?thesis using closed by (simp add: trace_ok_stop)
  next
    case giveup
    then have "snd (snd y) = tr @ [Request ?q]" using body by auto
    then show ?thesis by (rule trace_ok_giveup)
  next
    case again
    then have "loop srv cursor allData (Suc retry) (Suc k)
        (tr @ [Request ?q, Sleep (tiered RETRY_DELAY_INFLUX (Suc retry))]) = Some y"
      using body by (simp add: tiered_def)
    from "1"(1)[OF this] again(1) again(3) show ?thesis
      by (simp add: trace_ok_again)
  next
    case page
    then have "loop srv (r_cursor (srv k ?q)) (allData @ rows_of (r_data (srv k ?q))) retry (Suc k)
        (tr @ [Request ?q]) = Some y"
      using body by simp
    from "1"(1)[OF this] show ?thesis by (rule trace_ok_page)
  qed
qed

lemma getDp_loop_trace:
  assumes run: "getDp_loop srv sensor cursor allData retry k tr = Some y"
  shows "trace_ok RETRY_DELAY MAX_RETRIES (dp_open cursor) (sensor, ci_end cursor, ci_limit cursor)
           retry tr (snd (snd y))"
proof (rule getDp_loop.raw_induct[where P = "\<lambda>srv sensor cursor allData retry k tr y.
          trace_ok RETRY_DELAY MAX_RETRIES (dp_open cursor) (sensor, ci_end cursor, ci_limit cursor)
            retry tr (snd (snd y))", OF _ run], goal_cases)
  case (1 loop srv sensor cursor allData retry k tr y)
  let ?q = "(sensor, ci_end cursor, ci_limit cursor)"
  note body = "1"(2)
  consider (closed) "\<not> dp_open cursor"
    | (giveup) "dp_open cursor" "dp_failed (srv k ?q)" "\<not> Suc retry < MAX_RETRIES"
    | (again) "dp_open cursor" "dp_failed (srv k ?q)" "Suc retry < MAX_RETRIES"
    | (page) "dp_open cursor" "\<not> dp_failed (srv k ?q)"
    by blast
  then show ?case
  proof cases
    case closed
    then have "snd (snd y) = tr" using body by (cases cursor) auto
    then show ?thesis using closed by (simp add: trace_ok_stop)
  next
    case giveup
    then have "snd (snd y) = tr @ [Request ?q]" using body by (cases cursor) auto
    then show ?thesis by (rule trace_ok_giveup)
  next
    case again
    then have "loop srv sensor cursor allData (Suc retry) (Suc k)
        (tr @ [Request ?q, Sleep (tiered RETRY_DELAY (Suc retry))]) = Some y"
      using body by (cases cursor) (simp_all add: tiered_def)
    from "1"(1)[OF this] again(1) again(3) show ?thesis
      by (simp add: trace_ok_again)
  next
    case page
    then have "loop srv sensor (r_cursor (srv k ?q)) (allData @ rows_of (r_data (srv k ?q))) retry (Suc k)
        (tr @ [Request ?q]) = Some y"
      using body by (cases cursor) simp_all
    from "1"(1)[OF this] show ?thesis by (rule trace_ok_page)
  qed
qed

lemma loadEntities_loop_trace:
  assumes run: "loadEntities_loop srv pageCount hasMore result retry k tr = Some y"
  shows "trace_ok RETRY_DELAY MAX_RETRIES hasMore pageCount retry tr (snd (snd y))"
proof (rule loadEntities_loop.raw_induct[where P = "\<lambda>srv pageCount hasMore result retry k tr y.
          trace_ok RETRY_DELAY MAX_RETRIES hasMore pageCount retry tr (snd (snd y))", OF _ run], goal_cases)
  case (1 loop srv pageCount hasMore result retry k tr y)
  note body = "1"(2)
  consider (closed) "\<not> hasMore"
    | (giveup) "hasMore" "page_failed (srv k pageCount)" "\<not> Suc retry < MAX_RETRIES"
    | (again) "hasMore" "page_failed (srv k pageCount)" "Suc retry < MAX_RETRIES"
    | (page) "hasMore" "\<not> page_failed (srv k pageCount)"
    by blast
  then show ?case
  proof cases
    case closed
    then have "snd (snd y) = tr" using body by auto
    then show ?thesis using closed by (simp add: trace_ok_stop)
  next
    case giveup
    then have "snd (snd y) = tr @ [Request pageCount]" using body by auto
    then show ?thesis by (rule trace_ok_giveup)
  next
    case again
    then have "loop srv pageCount hasMore result (Suc retry) (Suc k)
        (tr @ [Request pageCount, Sleep (tiered RETRY_DELAY (Suc retry))]) = Some y"
      using body by (simp add: tiered_def)
    from "1"(1)[OF this] again(1) again(3) show ?thesis
      by (simp add: trace_ok_again)
  next
    case page
    then have "loop srv (Suc pageCount)
        (has_more (result @ page_rows (srv k pageCount)) (page_total (srv k pageCount)))
        (result @ page_rows (srv k pageCount)) retry (Suc k) (tr @ [Request pageCount]) = Some y"
      using body by simp
    from "1"(1)[OF this] show ?thesis by (rule trace_ok_page)
  qed
qed

lemma trace_ok_start: "trace_ok d n opn q 0 [] tr \<Longrightarrow> 0 < n \<Longrightarrow> retry_suffix d n 0 tr"
  by (simp add: trace_ok_def)

lemma run_ok_stop: "tr' = tr \<Longrightarrow> run_ok d n failed False q f k tr tr'"
  by (simp add: run_ok_def)

lemma run_ok_giveup:
  "tr' = tr @ [Request q] \<Longrightarrow> failed k q \<Longrightarrow> \<not> Suc f < n \<Longrightarrow> run_ok d n failed opn q f k tr tr'"
  by (simp add: run_ok_def starts_with_def)

lemma run_ok_again:
  assumes "run_ok d n failed True q (Suc f) (Suc k) (tr @ [Request q, Sleep (tiered d (Suc f))]) tr'"
    and "failed k q" and "Suc f < n"
  shows "run_ok d n failed opn q f k tr tr'"
proof -
  from assms(1) obtain suf where
    suf: "tr' = (tr @ [Request q, Sleep (tiered d (Suc f))]) @ suf" "starts_with q suf"
      "obeys d n failed (Suc f) (Suc k) suf"
    by (auto simp: run_ok_def)
  have t: "tiered d (Suc f) = (if Suc f \<le> 5 then fst d else snd d)"
    by (simp add: tiered_def)
  have "tr' = tr @ (Request q # Sleep (tiered d (Suc f)) # suf)" using suf(1) by simp
  moreover have "starts_with q (Request q # Sleep (tiered d (Suc f)) # suf)"
    by (simp add: starts_with_def)
  moreover have "obeys d n failed f k (Request q # Sleep (tiered d (Suc f)) # suf)"
    using suf(2,3) assms(2,3) t by simp
  ultimately show ?thesis unfolding run_ok_def by blast
qed

lemma obeys_page:
  "obeys d n failed f k (Request q # suf)" if "\<not> failed k q" "obeys d n failed f (Suc k) suf"
proof (cases suf)
  case Nil
  then show ?thesis using that by simp
next
  case (Cons e es)
  then show ?thesis using that by (cases e) simp_all
qed

lemma run_ok_page:
  assumes "run_ok d n failed opn' q' f (Suc k) (tr @ [Request q]) tr'" and "\<not> failed k q"
  shows "run_ok d n failed opn q f k tr tr'"
proof -
  from assms(1) obtain suf where
    suf: "tr' = (tr @ [Request q]) @ suf" "obeys d n failed f (Suc k) suf"
    by (auto simp: run_ok_def)
  have "tr' = tr @ (Request q # suf)" using suf(1) by simp
  moreover have "starts_with q (Request q # suf)" by (simp add: starts_with_def)
  ultimately show ?thesis using obeys_page[OF assms(2) suf(2)] unfolding run_ok_def by blast
qed

lemma influx_loop_obeys:
  assumes run: "influx_loop srv cursor allData retry k tr = Some y"
  shows "run_ok RETRY_DELAY_INFLUX MAX_RETRIES_INFLUX (\<lambda>k q. influx_failed (srv k q))
           (cursor_open cursor) (cd_start cursor, cd_end cursor) retry k tr (snd (snd y))"
proof (rule influx_loop.raw_induct[where P = "\<lambda>srv cursor allData retry k tr y.
          run_ok RETRY_DELAY_INFLUX MAX_RETRIES_INFLUX (\<lambda>k q. influx_failed (srv k q))
            (cursor_open cursor) (cd_start cursor, cd_end cursor) retry k tr (snd (snd y))", OF _ run], goal_cases)
  case (1 loop srv cursor allData retry k tr y)
  let ?q = "(cd_start cursor, cd_end cursor)"
  let ?d = RETRY_DELAY_INFLUX and ?n = MAX_RETRIES_INFLUX and ?f = "\<lambda>k q. influx_failed (srv k q)"
  note body = "1"(2)
  consider (closed) "\<not> cursor_open cursor"
    | (giveup) "cursor_open cursor" "influx_failed (srv k ?q)" "\<not> Suc retry < MAX_RETRIES_INFLUX"
    | (again) "cursor_open cursor" "influx_failed (srv k ?q)" "Suc retry < MAX_RETRIES_INFLUX"
    | (page) "cursor_open cursor" "\<not> influx_failed (srv k ?q)"
    by blast
  then show ?case
  proof cases
    case closed
    then have "snd (snd y) = tr" using body by auto
    then show ?thesis using closed by (simp add: run_ok_stop)
  next
    case giveup
    then have "snd (snd y) = tr @ [Request ?q]" using body by auto
    then show ?thesis using giveup(2,3) by (rule run_ok_giveup)
  next
    case again
    then have "loop srv cursor allData (Suc retry) (Suc k)
        (tr @ [Request ?q, Sleep (tiered RETRY_DELAY_INFLUX (Suc retry))]) = Some y"
      using body by (simp add: tiered_def)
    from "1"(1)[OF this] have "run_ok ?d ?n ?f True ?q (Suc retry) (Suc k)
        (tr @ [Request ?q, Sleep (tiered ?d (Suc retry))]) (snd (snd y))"
      using again(1) by simp
    then show ?thesis using again(2,3) by (rule run_ok_again)
  next
    case page
    then have "loop srv (r_cursor (srv k ?q)) (allData @ rows_of (r_data (srv k ?q))) retry (Suc k)
        (tr @ [Request ?q]) = Some y"
      using body by simp
    from "1"(1)[OF this] show ?thesis using page(2) by (rule run_ok_page)
  qed
qed

lemma getDp_loop_obeys:
  assumes run: "getDp_loop srv sensor cursor allData retry k tr = Some y"
  shows "run_ok RETRY_DELAY MAX_RETRIES (\<lambda>k q. dp_failed (srv k q))
           (dp_open cursor) (sensor, ci_end cursor, ci_limit cursor) retry k tr (snd (snd y))"
proof (rule getDp_loop.raw_induct[where P = "\<lambda>srv sensor cursor allData retry k tr y.
          run_ok RETRY_DELAY MAX_RETRIES (\<lambda>k q. dp_failed (srv k q))
            (dp_open cursor) (sensor, ci_end cursor, ci_limit cursor) retry k tr (snd (snd y))", OF _ run], goal_cases)
  case (1 loop srv sensor cursor allData retry k tr y)
  let ?q = "(sensor, ci_end cursor, ci_limit cursor)"
  let ?d = RETRY_DELAY and ?n = MAX_RETRIES and ?f = "\<lambda>k q. dp_failed (srv k q)"
  note body = "1"(2)
  consider (closed) "\<not> dp_open cursor"
    | (giveup) "dp_open cursor" "dp_failed (srv k ?q)" "\<not> Suc retry < MAX_RETRIES"
    | (again) "dp_open cursor" "dp_failed (srv k ?q)" "Suc retry < MAX_RETRIES"
    | (page) "dp_open cursor" "\<not> dp_failed (srv k ?q)"
    by blast
  then show ?case
  proof cases
    case closed
    then have "snd (snd y) = tr" using body by (cases cursor) auto
    then show ?thesis using closed by (simp add: run_ok_stop)
  next
    case giveup
    then have "snd (snd y) = tr @ [Request ?q]" using body by (cases cursor) auto
    then show ?thesis using giveup(2,3) by (rule run_ok_giveup)
  next
    case again
    then have "loop srv sensor cursor allData (Suc retry) (Suc k)
        (tr @ [Request ?q, Sleep (tiered RETRY_DELAY (Suc retry))]) = Some y"
      using body by (cases cursor) (simp_all add: tiered_def)
    from "1"(1)[OF this] have "run_ok ?d ?n ?f True ?q (Suc retry) (Suc k)
        (tr @ [Request ?q, Sleep (tiered ?d (Suc retry))]) (snd (snd y))"
      using again(1) by simp
    then show ?thesis using again(2,3) by (rule run_ok_again)
  next
    case page
    then have "loop srv sensor (r_cursor (srv k ?q)) (allData @ rows_of (r_data (srv k ?q))) retry (Suc k)
        (tr @ [Request ?q]) = Some y"
      using body by (cases cursor) simp_all
    from "1"(1)[OF this] show ?thesis using page(2) by (rule run_ok_page)
  qed
qed

lemma loadEntities_loop_obeys:
  assumes run: "loadEntities_loop srv pageCount hasMore result retry k tr = Some y"
  shows "run_ok RETRY_DELAY MAX_RETRIES (\<lambda>k q. page_failed (srv k q)) hasMore pageCount retry k tr (snd (snd y))"
proof (rule loadEntities_loop.raw_induct[where P = "\<lambda>srv pageCount hasMore result retry k tr y.
          run_ok RETRY_DELAY MAX_RETRIES (\<lambda>k q. page_failed (srv k q)) hasMore pageCount retry k tr (snd (snd y))",
        OF _ run], goal_cases)
  case (1 loop srv pageCount hasMore result retry k tr y)
  let ?q = pageCount
  let ?d = RETRY_DELAY and ?n = MAX_RETRIES and ?f = "\<lambda>k q. page_failed (srv k q)"
  note body = "1"(2)
  consider (closed) "\<not> hasMore"
    | (giveup) "hasMore" "page_failed (srv k pageCount)" "\<not> Suc retry < MAX_RETRIES"
    | (again) "hasMore" "page_failed (srv k pageCount)" "Suc retry < MAX_RETRIES"
    | (page) "hasMore" "\<not> page_failed (srv k pageCount)"
    by blast
  then show ?case
  proof cases
    case closed
    then have "snd (snd y) = tr" using body by auto
    then show ?thesis using closed by (simp add: run_ok_stop)
  next
    case giveup
    then have "snd (snd y) = tr @ [Request pageCount]" using body by auto
    then show ?thesis using giveup(2,3) by (rule run_ok_giveup)
  next
    case again
    then have "loop srv pageCount hasMore result (Suc retry) (Suc k)
        (tr @ [Request pageCount, Sleep (tiered RETRY_DELAY (Suc retry))]) = Some y"
      using body by (simp add: tiered_def)
    from "1"(1)[OF this] have "run_ok ?d ?n ?f True ?q (Suc retry) (Suc k)
        (tr @ [Request ?q, Sleep (tiered ?d (Suc retry))]) (snd (snd y))"
      using again(1) by simp
    then show ?thesis using again(2,3) by (rule run_ok_again)
  next
    case page
    then have "loop srv (Suc pageCount)
        (has_more (result @ page_rows (srv k pageCount)) (page_total (srv k pageCount)))
        (result @ page_rows (srv k pageCount)) retry (Suc k) (tr @ [Request pageCount]) = Some y"
      using body by simp
    from "1"(1)[OF this] show ?thesis using page(2) by (rule run_ok_page)
  qed
qed

lemma run_ok_start: "run_ok d n failed opn q 0 0 [] tr \<Longrightarrow> obeys d n failed 0 0 tr"
  by (simp add: run_ok_def)

lemma getDp_failure_step:
  assumes "dp_open cursor" and "dp_failed (srv k (sensor, ci_end cursor, ci_limit cursor))"
    and "Suc retry < MAX_RETRIES"
  shows "getDp_loop srv sensor cursor allData retry k tr =
         getDp_loop srv sensor cursor allData (Suc retry) (Suc k)
           (tr @ [Request (sensor, ci_end cursor, ci_limit cursor),
                  Sleep (if Suc retry \<le> 5 then fst RETRY_DELAY else snd RETRY_DELAY)])"
proof (cases cursor)
  case NoCursorInfo
  then show ?thesis using assms(1) by simp
next
  case (CursorInfo e l)
  then show ?thesis using assms by (subst getDp_loop.simps) simp
qed

lemma influx_failure_step:
  assumes "cursor_open cursor" and "influx_failed (srv k (cd_start cursor, cd_end cursor))"
    and "Suc retry < MAX_RETRIES_INFLUX"
  shows "influx_loop srv cursor allData retry k tr =
         influx_loop srv cursor allData (Suc retry) (Suc k)
           (tr @ [Request (cd_start cursor, cd_end cursor),
                  Sleep (if Suc retry \<le> 5 then fst RETRY_DELAY_INFLUX else snd RETRY_DELAY_INFLUX)])"
  using assms by (subst influx_loop.simps) simp

lemma loadEntities_failure_step:
  assumes "page_failed (srv k pageCount)" and "Suc retry < MAX_RETRIES"
  shows "loadEntities_loop srv pageCount True result retry k tr =
         loadEntities_loop srv pageCount True result (Suc retry) (Suc k)
           (tr @ [Request pageCount, Sleep (if Suc retry \<le> 5 then fst RETRY_DELAY else snd RETRY_DELAY)])"
  using assms by (subst loadEntities_loop.simps) simp

text \<open>
  Claim C9, as amended.  In each of the three loops, from every state: a request that fails
  with the retry budget not used up is followed by a wait and by the same request again
  (same cursor, same accumulated rows, one failure more), whether or not the run ever ends.
  In every finished run the trace obeys the retry rule against the server (\<open>obeys\<close>):
  the wait after a failure is the first delay of the endpoint while the count of all
  failures of the run so far, consecutive or not, is at most 5, and the second delay
  afterwards; a successful page is followed by no wait and does not reset the count; the
  failure that uses up the budget is followed by no wait and no retry.  So the \<open>i\<close>-th
  wait of a run lasts the delay of tier \<open>i\<close>, and fewer waits are made than the budget.
  For the bulk loop of \<open>_influxdb\<close> the two delays are 2000 ms and 10000 ms; for the
  loops of \<open>getDp\<close> and \<open>getLoadEntities\<close> they are the two entries of \<open>RETRY_DELAY\<close>.
\<close>

theorem retry_delay_follows_cumulative_failures:
  fixes srvD :: "nat \<Rightarrow> dp_request \<Rightarrow> ('r, cursor_info) response"
    and srvI :: "nat \<Rightarrow> influx_request \<Rightarrow> ('r, cursor_data) response"
    and srvL :: "nat \<Rightarrow> nat \<Rightarrow> 'r page_response"
  shows "(dp_open cD \<and> dp_failed (srvD k (sensor, ci_end cD, ci_limit cD)) \<and> Suc retry < MAX_RETRIES \<longrightarrow>
            getDp_loop srvD sensor cD allD retry k tD =
            getDp_loop srvD sensor cD allD (Suc retry) (Suc k)
              (tD @ [Request (sensor, ci_end cD, ci_limit cD),
                     Sleep (if Suc retry \<le> 5 then fst RETRY_DELAY else snd RETRY_DELAY)]))
       \<and> (page_failed (srvL k page) \<and> Suc retry < MAX_RETRIES \<longrightarrow>
            loadEntities_loop srvL page True allL retry k tL =
            loadEntities_loop srvL page True allL (Suc retry) (Suc k)
              (tL @ [Request page, Sleep (if Suc retry \<le> 5 then fst RETRY_DELAY else snd RETRY_DELAY)]))
       \<and> (cursor_open cI \<and> influx_failed (srvI k (cd_start cI, cd_end cI)) \<and> Suc retry < 8 \<longrightarrow>
            influx_loop srvI cI allI retry k tI =
            influx_loop srvI cI allI (Suc retry) (Suc k)
              (tI @ [Request (cd_start cI, cd_end cI), Sleep (if Suc retry \<le> 5 then 2000 else 10000)]))
       \<and> (getDp_loop srvD sensor cD [] 0 0 [] = Some (rD, kD, trD) \<longrightarrow>
            obeys RETRY_DELAY MAX_RETRIES (\<lambda>k q. dp_failed (srvD k q)) 0 0 trD
            \<and> well_retried trD \<and> sleeps trD = map (tiered RETRY_DELAY) [1..<1 + length (sleeps trD)]
            \<and> length (sleeps trD) < MAX_RETRIES)
       \<and> (loadEntities_loop srvL 1 True [] 0 0 [] = Some (rL, kL, trL) \<longrightarrow>
            obeys RETRY_DELAY MAX_RETRIES (\<lambda>k q. page_failed (srvL k q)) 0 0 trL
            \<and> well_retried trL \<and> sleeps trL = map (tiered RETRY_DELAY) [1..<1 + length (sleeps trL)]
            \<and> length (sleeps trL) < MAX_RETRIES)
       \<and> (influx_loop srvI cI [] 0 0 [] = Some (rI, kI, trI) \<longrightarrow>
            obeys (2000, 10000) 8 (\<lambda>k q. influx_failed (srvI k q)) 0 0 trI
            \<and> well_retried trI \<and> sleeps trI = map (tiered (2000, 10000)) [1..<1 + length (sleeps trI)]
            \<and> length (sleeps trI) < 8)"
proof (intro conjI impI)
  assume "dp_open cD \<and> dp_failed (srvD k (sensor, ci_end cD, ci_limit cD)) \<and> Suc retry < MAX_RETRIES"
  then show "getDp_loop srvD sensor cD allD retry k tD =
            getDp_loop srvD sensor cD allD (Suc retry) (Suc k)
              (tD @ [Request (sensor, ci_end cD, ci_limit cD),
                     Sleep (if Suc retry \<le> 5 then fst RETRY_DELAY else snd RETRY_DELAY)])"
    using getDp_failure_step[of cD srvD k sensor retry allD tD] by blast
next
  assume "page_failed (srvL k page) \<and> Suc retry < MAX_RETRIES"
  then show "loadEntities_loop srvL page True allL retry k tL =
            loadEntities_loop srvL page True allL (Suc retry) (Suc k)
              (tL @ [Request page, Sleep (if Suc retry \<le> 5 then fst RETRY_DELAY else snd RETRY_DELAY)])"
    using loadEntities_failure_step[of srvL k page retry allL tL] by blast
next
  assume "cursor_open cI \<and> influx_failed (srvI k (cd_start cI, cd_end cI)) \<and> Suc retry < 8"
  then show "influx_loop srvI cI allI retry k tI =
            influx_loop srvI cI allI (Suc retry) (Suc k)
              (tI @ [Request (cd_start cI, cd_end cI), Sleep (if Suc retry \<le> 5 then 2000 else 10000)])"
    using influx_failure_step[of cI srvI k retry allI tI]
    by (simp add: MAX_RETRIES_INFLUX_def RETRY_DELAY_INFLUX_def)
next
  assume run: "getDp_loop srvD sensor cD [] 0 0 [] = Some (rD, kD, trD)"
  from run_ok_start[OF getDp_loop_obeys[OF run, simplified]]
  show "obeys RETRY_DELAY MAX_RETRIES (\<lambda>k q. dp_failed (srvD k q)) 0 0 trD" .
  from trace_ok_start[OF getDp_loop_trace[OF run, simplified]]
  have "retry_suffix RETRY_DELAY MAX_RETRIES 0 trD" by (simp add: MAX_RETRIES_def)
  then show "well_retried trD" "sleeps trD = map (tiered RETRY_DELAY) [1..<1 + length (sleeps trD)]"
    "length (sleeps trD) < MAX_RETRIES"
    by (simp_all add: retry_suffix_def)
next
  assume run: "loadEntities_loop srvL 1 True [] 0 0 [] = Some (rL, kL, trL)"
  from run_ok_start[OF loadEntities_loop_obeys[OF run, simplified]]
  show "obeys RETRY_DELAY MAX_RETRIES (\<lambda>k q. page_failed (srvL k q)) 0 0 trL" .
  from trace_ok_start[OF loadEntities_loop_trace[OF run, simplified]]
  have "retry_suffix RETRY_DELAY MAX_RETRIES 0 trL" by (simp add: MAX_RETRIES_def)
  then show "well_retried trL" "sleeps trL = map (tiered RETRY_DELAY) [1..<1 + length (sleeps trL)]"
    "length (sleeps trL) < MAX_RETRIES"
    by (simp_all add: retry_suffix_def)
next
  assume run: "influx_loop srvI cI [] 0 0 [] = Some (rI, kI, trI)"
  from run_ok_start[OF influx_loop_obeys[OF run, simplified]]
  show "obeys (2000, 10000) 8 (\<lambda>k q. influx_failed (srvI k q)) 0 0 trI"
    by (simp add: MAX_RETRIES_INFLUX_def RETRY_DELAY_INFLUX_def)
  from trace_ok_start[OF influx_loop_trace[OF run, simplified]]
  have "retry_suffix RETRY_DELAY_INFLUX MAX_RETRIES_INFLUX 0 trI" by (simp add: MAX_RETRIES_INFLUX_def)
  then show "well_retried trI" "sleeps trI = map (tiered (2000, 10000)) [1..<1 + length (sleeps trI)]"
    "length (sleeps trI) < 8"
    by (simp_all add: retry_suffix_def RETRY_DELAY_INFLUX_def MAX_RETRIES_INFLUX_def)
qed

theorem retry_delay_follows_cumulative_failures_witness:
  "getDp_loop (\<lambda>k q. if k = 0 then Rejected else Response False (Rows [7::nat]) (CursorInfo Null Null))
       ''D5'' (CursorInfo (Num 1717180320) (Num 2)) [] 0 0 [] =
     Some (Inr [7], 2, [Request (''D5'', Num 1717180320, Num 2), Sleep 2,
                        Request (''D5'', Num 1717180320, Num 2)])
   \<and> getDp_loop (\<lambda>k q. if k = 0 then Rejected else Response False (Rows [7::nat]) (CursorInfo Null Null))
       ''D5'' (CursorInfo (Num 1717180320) (Num 2)) [] (Suc 0) (Suc 0)
       [Request (''D5'', Num 1717180320, Num 2), Sleep 2] =
     Some (Inr [7], 2, [Request (''D5'', Num 1717180320, Num 2), Sleep 2,
                        Request (''D5'', Num 1717180320, Num 2)])
   \<and> obeys RETRY_DELAY MAX_RETRIES
       (\<lambda>k q. dp_failed (if k = 0 then Rejected else Response False (Rows [7::nat]) (CursorInfo Null Null)))
       0 0 [Request (''D5'', Num 1717180320, Num 2), Sleep 2, Request (''D5'', Num 1717180320, Num 2)]
   \<and> loadEntities_loop (\<lambda>k q. if k = 0 then PageRejected else PageResponse False (Some [7::nat]) (Some 1))
       1 True [] 0 0 [] =
     Some (Inr [7], 2, [Request 1, Sleep 2, Request 1])
   \<and> loadEntities_loop (\<lambda>k q. if k = 0 then PageRejected else PageResponse False (Some [7::nat]) (Some 1))
       1 True [] (Suc 0) (Suc 0) [Request 1, Sleep 2] =
     Some (Inr [7], 2, [Request 1, Sleep 2, Request 1])
   \<and> obeys RETRY_DELAY MAX_RETRIES
       (\<lambda>k q. page_failed (if k = 0 then PageRejected else PageResponse False (Some [7::nat]) (Some 1)))
       0 0 [Request (1::nat), Sleep 2, Request 1]
   \<and> influx_loop (\<lambda>k q. if k = 0 then Rejected else Response False (Rows [7::nat]) NoCursorData)
       (CursorData (Num 1717180320000) (Num 1717180380000)) [] 0 0 [] =
     Some (Inr [7], 2, [Request (Num 1717180320000, Num 1717180380000), Sleep 2000,
                        Request (Num 1717180320000, Num 1717180380000)])
   \<and> influx_loop (\<lambda>k q. if k = 0 then Rejected else Response False (Rows [7::nat]) NoCursorData)
       (CursorData (Num 1717180320000) (Num 1717180380000)) [] (Suc 0) (Suc 0)
       [Request (Num 1717180320000, Num 1717180380000), Sleep 2000] =
     Some (Inr [7], 2, [Request (Num 1717180320000, Num 1717180380000), Sleep 2000,
                        Request (Num 1717180320000, Num 1717180380000)])
   \<and> obeys (2000, 10000) 8
       (\<lambda>k q. influx_failed (if k = 0 then Rejected else Response False (Rows [7::nat]) NoCursorData))
       0 0 [Request (Num 1717180320000, Num 1717180380000), Sleep 2000,
            Request (Num 1717180320000, Num 1717180380000)]"
proof -
  let ?sD = "\<lambda>(k::nat) (q::dp_request). if k = 0 then Rejected else Response False (Rows [7::nat]) (CursorInfo Null Null)"
  let ?sL = "\<lambda>(k::nat) (q::nat). if k = 0 then PageRejected else PageResponse False (Some [7::nat]) (Some 1)"
  let ?sI = "\<lambda>(k::nat) (q::influx_request). if k = 0 then Rejected else Response False (Rows [7::nat]) NoCursorData"
  let ?cD = "CursorInfo (Num 1717180320) (Num 2)"
  let ?cI = "CursorData (Num 1717180320000) (Num 1717180380000)"
  have d: "getDp_loop ?sD ''D5'' ?cD [] 0 0 [] =
     Some (Inr [7], 2, [Request (''D5'', Num 1717180320, Num 2), Sleep 2,
                        Request (''D5'', Num 1717180320, Num 2)])"
    by code_simp
  have l: "loadEntities_loop ?sL 1 True [] 0 0 [] = Some (Inr [7], 2, [Request 1, Sleep 2, Request 1])"
    by code_simp
  have i: "influx_loop ?sI ?cI [] 0 0 [] =
     Some (Inr [7], 2, [Request (Num 1717180320000, Num 1717180380000), Sleep 2000,
                        Request (Num 1717180320000, Num 1717180380000)])"
    by code_simp
  have h: "dp_open ?cD" "dp_failed (?sD 0 (''D5'', ci_end ?cD, ci_limit ?cD))" "Suc 0 < MAX_RETRIES"
    "page_failed (?sL 0 1)" "cursor_open ?cI" "influx_failed (?sI 0 (cd_start ?cI, cd_end ?cI))"
    "fst RETRY_DELAY = 2"
    by (simp_all add: MAX_RETRIES_def RETRY_DELAY_def)
  from retry_delay_follows_cumulative_failures[where 'r = nat and srvD = ?sD and srvL = ?sL and srvI = ?sI
      and cD = ?cD and cI = ?cI and sensor = "''D5''" and page = 1 and k = 0 and retry = 0
      and allD = "[]" and allL = "[]" and allI = "[]" and tD = "[]" and tL = "[]" and tI = "[]"
      and rD = "Inr [7]" and kD = 2
      and trD = "[Request (''D5'', Num 1717180320, Num 2), Sleep 2, Request (''D5'', Num 1717180320, Num 2)]"
      and rL = "Inr [7]" and kL = 2 and trL = "[Request 1, Sleep 2, Request 1]"
      and rI = "Inr [7]" and kI = 2
      and trI = "[Request (Num 1717180320000, Num 1717180380000), Sleep 2000, Request (Num 1717180320000, Num 1717180380000)]"]
    d l i h
  show ?thesis by simp
qed

text \<open>
  Claim C9 as stated fails: after five failures and one successful page, the next failure
  is the first of its run and the first on its cursor, yet the loop waits the long delay.
\<close>

theorem long_delay_after_nonconsecutive_failures:
  "influx_loop (\<lambda>k q. if k < 5 then Rejected
        else if k = 5 then Response False (Rows [1::nat]) (CursorData (Num 200) (Num 300))
        else if k = 6 then Rejected
        else Response False (Rows [2]) NoCursorData)
      (CursorData (Num 100) (Num 300)) [] 0 0 [] =
   Some (Inr [1, 2], 8,
     [Request (Num 100, Num 300), Sleep 2000, Request (Num 100, Num 300), Sleep 2000,
      Request (Num 100, Num 300), Sleep 2000, Request (Num 100, Num 300), Sleep 2000,
      Request (Num 100, Num 300), Sleep 2000, Request (Num 100, Num 300),
      Request (Num 200, Num 300), Sleep 10000, Request (Num 200, Num 300)])"
  by code_simp

subsection \<open>Pagination\<close>

text \<open>
  A walk whose every request is answered with a page concatenates the pages in the order
  they arrive and stops at the first cursor that is not open: for \<open>_influxdb\<close> any
  cursor without a truthy \<open>start\<close> and \<open>end\<close>, \<open>null\<close> included; for \<open>getDp\<close> a
  cursor object whose \<open>end\<close> is falsy.
\<close>

lemma influx_loop_pages:
  assumes "cursor_open c"
    and "\<forall>i < length pages. \<forall>q. srv (k + i) q = Response False (Rows (fst (pages ! i))) (snd (pages ! i))"
    and "\<forall>i. Suc i < length pages \<longrightarrow> cursor_open (snd (pages ! i))"
    and "pages \<noteq> []" and "\<not> cursor_open (snd (last pages))"
  shows "influx_loop srv c allData retry k tr =
           Some (Inr (allData @ concat (map fst pages)), k + length pages,
                 tr @ map (\<lambda>c. Request (cd_start c, cd_end c)) (c # butlast (map snd pages)))"
  using assms
proof (induction pages arbitrary: c allData k tr)
  case Nil
  then show ?case by simp
next
  case (Cons p ps)
  have r0: "\<And>q. srv k q = Response False (Rows (fst p)) (snd p)"
    using Cons.prems(2)[rule_format, of 0] by simp
  have step: "influx_loop srv c allData retry k tr =
        influx_loop srv (snd p) (allData @ fst p) retry (Suc k) (tr @ [Request (cd_start c, cd_end c)])"
    using Cons.prems(1) by (subst influx_loop.simps) (simp add: r0)
  show ?case
  proof (cases ps)
    case Nil
    then have "\<not> cursor_open (snd p)" using Cons.prems(5) by simp
    then have "influx_loop srv (snd p) (allData @ fst p) retry (Suc k) (tr @ [Request (cd_start c, cd_end c)]) =
        Some (Inr (allData @ fst p), Suc k, tr @ [Request (cd_start c, cd_end c)])"
      by (subst influx_loop.simps) simp
    then show ?thesis using step Nil by simp
  next
    case (Cons p' ps')
    have a: "\<forall>i < length ps. \<forall>q. srv (Suc k + i) q = Response False (Rows (fst (ps ! i))) (snd (ps ! i))"
    proof (intro allI impI)
      fix i q assume "i < length ps"
      then show "srv (Suc k + i) q = Response False (Rows (fst (ps ! i))) (snd (ps ! i))"
        using Cons.prems(2)[rule_format, of "Suc i" q] by simp
    qed
    have b: "\<forall>i. Suc i < length ps \<longrightarrow> cursor_open (snd (ps ! i))"
    proof (intro allI impI)
      fix i assume "Suc i < length ps"
      then show "cursor_open (snd (ps ! i))"
        using Cons.prems(3)[rule_format, of "Suc i"] by simp
    qed
    have c: "ps \<noteq> []" "\<not> cursor_open (snd (last ps))" using Cons Cons.prems(5) by simp_all
    have d: "cursor_open (snd p)" using Cons.prems(3)[rule_format, of 0] Cons by simp
    show ?thesis using Cons.IH[OF d a b c, of "allData @ fst p" "tr @ [Request (cd_start c, cd_end c)]"] step c(1)
      by simp
  qed
qed

lemma getDp_loop_pages:
  assumes "dp_open c"
    and "\<forall>i < length pages. \<forall>q. srv (k + i) q = Response False (Rows (fst (pages ! i))) (snd (pages ! i))"
    and "\<forall>i. Suc i < length pages \<longrightarrow> dp_open (snd (pages ! i))"
    and "pages \<noteq> []" and "snd (last pages) \<noteq> NoCursorInfo" and "\<not> dp_open (snd (last pages))"
  shows "getDp_loop srv sensor c allData retry k tr =
           Some (Inr (allData @ concat (map fst pages)), k + length pages,
                 tr @ map (\<lambda>c. Request (sensor, ci_end c, ci_limit c)) (c # butlast (map snd pages)))"
  using assms
proof (induction pages arbitrary: c allData k tr)
  case Nil
  then show ?case by simp
next
  case (Cons p ps)
  obtain e l where c: "c = CursorInfo e l" "truthy e"
    using Cons.prems(1) by (cases c) simp_all
  have r0: "\<And>q. srv k q = Response False (Rows (fst p)) (snd p)"
    using Cons.prems(2)[rule_format, of 0] by simp
  have step: "getDp_loop srv sensor c allData retry k tr =
        getDp_loop srv sensor (snd p) (allData @ fst p) retry (Suc k) (tr @ [Request (sensor, e, l)])"
    using c by (subst getDp_loop.simps) (simp add: r0)
  show ?case
  proof (cases ps)
    case Nil
    then obtain e' l' where p: "snd p = CursorInfo e' l'" "\<not> truthy e'"
      using Cons.prems(5,6) by (cases "snd p") simp_all
    have "getDp_loop srv sensor (snd p) (allData @ fst p) retry (Suc k) (tr @ [Request (sensor, e, l)]) =
        Some (Inr (allData @ fst p), Suc k, tr @ [Request (sensor, e, l)])"
      using p by (subst getDp_loop.simps) simp
    then show ?thesis using step Nil c by simp
  next
    case (Cons p' ps')
    have a: "\<forall>i < length ps. \<forall>q. srv (Suc k + i) q = Response False (Rows (fst (ps ! i))) (snd (ps ! i))"
    proof (intro allI impI)
      fix i q assume "i < length ps"
      then show "srv (Suc k + i) q = Response False (Rows (fst (ps ! i))) (snd (ps ! i))"
        using Cons.prems(2)[rule_format, of "Suc i" q] by simp
    qed
    have b: "\<forall>i. Suc i < length ps \<longrightarrow> dp_open (snd (ps ! i))"
    proof (intro allI impI)
      fix i assume "Suc i < length ps"
      then show "dp_open (snd (ps ! i))"
        using Cons.prems(3)[rule_format, of "Suc i"] by simp
    qed
    have l: "ps \<noteq> []" "snd (last ps) \<noteq> NoCursorInfo" "\<not> dp_open (snd (last ps))"
      using Cons Cons.prems(5,6) by simp_all
    have d: "dp_open (snd p)" using Cons.prems(3)[rule_format, of 0] Cons by simp
    show ?thesis
      using Cons.IH[OF d a b l, of "allData @ fst p" "tr @ [Request (sensor, e, l)]"] step l(1) c
      by simp
  qed
qed

text \<open>
  Claim C2, at the input where \<open>getDp\<close> departs from it.  The server answers the first
  request with one page and the cursor \<open>null\<close>.  The walk should end with that page;
  the guard \<open>cursor.end\<close> throws instead, and the page is lost.
\<close>

theorem getDp_null_cursor_aborts_walk:
  "getDp_loop (\<lambda>k q. Response False (Rows [7::nat]) NoCursorInfo)
       ''D5'' (CursorInfo (Num 1717180320) (Num 2)) [] 0 0 [] =
     Some (Inl (TypeError ''Cannot read properties of null (reading 'end')''), 1,
           [Request (''D5'', Num 1717180320, Num 2)])"
  by code_simp

subsection \<open>Calibration\<close>

lemma last_param_Nil: "last_param n [] = None"
  by (simp add: last_param_def)

lemma last_param_snoc:
  "last_param n (ps @ [p]) = (if paramName p = n then Some (paramValue p) else last_param n ps)"
  by (simp add: last_param_def)

lemma read_params_snoc: "read_params pf (ps @ [p]) = read_param pf (read_params pf ps) p"
  by (simp add: read_params_def)

lemma read_params_eq:
  "read_params pf ps = \<lparr>cal_m = slope_of pf ps, cal_c = intercept_of pf ps,
       cal_min = bound_of ''min'' pf ps, cal_max = bound_of ''max'' pf ps\<rparr>"
proof (induction ps rule: rev_induct)
  case Nil
  then show ?case
    by (simp add: read_params_def cal_default_def slope_of_def intercept_of_def bound_of_def last_param_Nil)
next
  case (snoc p ps)
  show ?case
    unfolding read_params_snoc snoc.IH
    by (simp add: read_param_def slope_of_def intercept_of_def bound_of_def last_param_snoc
        split: option.splits)
qed

lemma calibrated_eq:
  "calibrated (read_params pf ps) raw =
     clamp (bound_of ''min'' pf ps) (bound_of ''max'' pf ps) (slope_of pf ps * raw + intercept_of pf ps)"
  by (simp add: read_params_eq calibrated_def clamp_def Let_def split: option.splits)

lemma slope_of_nonzero: "slope_of pf ps \<noteq> 0"
  by (simp add: slope_of_def split: option.splits)

lemma objects_Param: "objects (map Param ps) = ps"
  by (induction ps) simp_all

lemma read_elements_objects:
  "Nullish \<notin> set els \<Longrightarrow> read_elements pf cp els = Inr (foldl (read_param pf) cp (objects els))"
  by (induction pf cp els rule: read_elements.induct) simp_all

lemma read_elements_Nullish:
  "Nullish \<in> set els \<Longrightarrow>
     read_elements pf cp els = Inl (TypeError ''Cannot read properties of null (reading 'paramName')'')"
  by (induction pf cp els rule: read_elements.induct) auto

lemma read_elements_default:
  "Nullish \<notin> set els \<Longrightarrow> read_elements pf cal_default els = Inr (read_params pf (objects els))"
  by (simp add: read_elements_objects read_params_def)

lemma read_elements_slope:
  assumes "read_elements pf cal_default els = Inr cp"
  shows "cal_m cp \<noteq> 0"
proof (cases "Nullish \<in> set els")
  case True
  then show ?thesis using assms read_elements_Nullish[of els pf cal_default] by simp
next
  case False
  then have "cp = read_params pf (objects els)" using assms by (simp add: read_elements_default)
  then show ?thesis by (simp add: read_params_eq slope_of_nonzero)
qed

lemma calibrate_row_numeric:
  assumes "sensor_of r = Some s" and "params md s = Array els" and "Nullish \<notin> set els"
    and "parseFloat pf (field r ''value'') = Some v"
  shows "calibrate_row pf md r =
     Inr (AList.update ''value''
       (Num (clamp (bound_of ''min'' pf (objects els)) (bound_of ''max'' pf (objects els))
               (slope_of pf (objects els) * v + intercept_of pf (objects els)))) r)"
proof -
  have "field r ''value'' \<noteq> Null" "field r ''value'' \<noteq> Undefined"
    using assms(4) by auto
  then show ?thesis using assms by (simp add: calibrate_row_def calibrated_eq read_elements_default)
qed

lemma calibrate_row_not_numeric:
  "regular md r \<Longrightarrow> parseFloat pf (field r ''value'') = None \<Longrightarrow> calibrate_row pf md r = Inr r"
  by (simp add: calibrate_row_def regular_def read_elements_default split: option.splits entry.splits)

lemma calibrate_row_no_params:
  "sensor_of r = None \<or> (\<exists>s. sensor_of r = Some s \<and> params md s = Falsy) \<Longrightarrow> calibrate_row pf md r = Inr r"
  by (auto simp: calibrate_row_def)

lemma calibrate_row_regular:
  "regular md r \<longleftrightarrow> (\<exists>r'. calibrate_row pf md r = Inr r')"
  by (auto simp: calibrate_row_def regular_def read_elements_default read_elements_Nullish
      split: option.splits entry.splits)

lemma calibrate_regular:
  assumes "\<forall>r \<in> set rows. regular md r"
  shows "\<exists>out. calibrate pf md rows = Inr out \<and> length out = length rows
           \<and> (\<forall>i < length rows. calibrate_row pf md (rows ! i) = Inr (out ! i))"
  using assms
proof (induction rows)
  case Nil
  then show ?case by simp
next
  case (Cons r rs)
  from Cons.prems have "regular md r" by simp
  then obtain r' where r': "calibrate_row pf md r = Inr r'"
    using calibrate_row_regular by blast
  from Cons obtain out where out: "calibrate pf md rs = Inr out" "length out = length rs"
    "\<forall>i < length rs. calibrate_row pf md (rs ! i) = Inr (out ! i)"
    by auto
  have "\<forall>i < length (r # rs). calibrate_row pf md ((r # rs) ! i) = Inr ((r' # out) ! i)"
  proof (intro allI impI)
    fix i assume "i < length (r # rs)"
    then show "calibrate_row pf md ((r # rs) ! i) = Inr ((r' # out) ! i)"
      using r' out(3) by (cases i) simp_all
  qed
  then show ?case using r' out(1,2) by simp
qed

lemma calibrate_raises:
  assumes "calibrate pf md rows = Inr out"
  shows "\<forall>r \<in> set rows. regular md r"
  using assms
proof (induction rows arbitrary: out)
  case Nil
  then show ?case by simp
next
  case (Cons r rs)
  then show ?case
    using calibrate_row_regular[of md r pf]
    by (auto split: sum.splits)
qed

text \<open>
  Claim C3, as amended.  Take a record whose sensor names an array of parameters without
  \<open>null\<close> elements.  If its value parses as the number \<open>v\<close>, it gets the value
  \<open>min(max(m * v + c, min), max)\<close>, the lower clamp before the upper one and each only
  where the bound is a number; here \<open>c\<close> and the bounds are those of the last parameters
  named \<open>c\<close>, \<open>min\<close>, \<open>max\<close>, and \<open>m\<close> is that of the last parameter named \<open>m\<close>
  unless it is absent, is no number or is zero, in which case \<open>m\<close> is 1.  If its value
  is \<open>null\<close>, absent or no number, the record is returned unchanged, and so is a record
  that has no sensor or whose sensor has no parameters.  On a list of records each of
  which has no sensor, no parameters or such an array, the stage does not raise and
  returns one record for each record, in order.
\<close>

theorem calibration_formula:
  "(sensor_of r = Some s \<and> params md s = Array els \<and> Nullish \<notin> set els
      \<and> parseFloat pf (field r ''value'') = Some v \<longrightarrow>
      calibrate_row pf md r =
        Inr (AList.update ''value''
          (Num (clamp (bound_of ''min'' pf (objects els)) (bound_of ''max'' pf (objects els))
                  (slope_of pf (objects els) * v + intercept_of pf (objects els)))) r))
   \<and> (regular md r \<and> parseFloat pf (field r ''value'') = None \<longrightarrow> calibrate_row pf md r = Inr r)
   \<and> (sensor_of r = None \<or> (\<exists>s. sensor_of r = Some s \<and> params md s = Falsy) \<longrightarrow>
        calibrate_row pf md r = Inr r)
   \<and> ((\<forall>r \<in> set rows. regular md r) \<longrightarrow>
        (\<exists>out. calibrate pf md rows = Inr out \<and> length out = length rows
           \<and> (\<forall>i < length rows. calibrate_row pf md (rows ! i) = Inr (out ! i))))"
  using calibrate_row_numeric[of r s md els pf v] calibrate_row_not_numeric[of md r pf]
    calibrate_row_no_params[of r md pf] calibrate_regular[of rows md pf]
  by blast

theorem calibration_formula_witness:
  "calibrate (\<lambda>s. None)
      \<lparr>sensors = [], params = plain_object [''S1'' \<mapsto> Array [Param \<lparr>paramName = ''m'', paramValue = Num 2\<rparr>,
          Param \<lparr>paramName = ''c'', paramValue = Num 1\<rparr>, Param \<lparr>paramName = ''min'', paramValue = Num 0\<rparr>,
          Param \<lparr>paramName = ''max'', paramValue = Num 100\<rparr>]]\<rparr>
      [[(''time'', Num 100), (''sensor'', Str ''S1''), (''value'', Num 10)],
       [(''time'', Num 101), (''sensor'', Str ''S1''), (''value'', Num 59.5)],
       [(''time'', Num 102), (''sensor'', Str ''S1''), (''value'', Str ''n/a'')],
       [(''time'', Num 103), (''sensor'', Str ''S2''), (''value'', Num 10)]]
    = Inr [[(''time'', Num 100), (''sensor'', Str ''S1''), (''value'', Num 21)],
           [(''time'', Num 101), (''sensor'', Str ''S1''), (''value'', Num 100)],
           [(''time'', Num 102), (''sensor'', Str ''S1''), (''value'', Str ''n/a'')],
           [(''time'', Num 103), (''sensor'', Str ''S2''), (''value'', Num 10)]]"
proof -
  let ?els = "[Param \<lparr>paramName = ''m'', paramValue = Num 2\<rparr>,
          Param \<lparr>paramName = ''c'', paramValue = Num 1\<rparr>, Param \<lparr>paramName = ''min'', paramValue = Num 0\<rparr>,
          Param \<lparr>paramName = ''max'', paramValue = Num 100\<rparr>]"
  let ?md = "\<lparr>sensors = [], params = plain_object [''S1'' \<mapsto> Array ?els]\<rparr>"
  let ?pf = "\<lambda>s::string. None::real option"
  let ?r0 = "[(''time'', Num 100), (''sensor'', Str ''S1''), (''value'', Num 10)]"
  let ?r1 = "[(''time'', Num 101), (''sensor'', Str ''S1''), (''value'', Num 59.5)]"
  let ?r2 = "[(''time'', Num 102), (''sensor'', Str ''S1''), (''value'', Str ''n/a'')]"
  let ?r3 = "[(''time'', Num 103), (''sensor'', Str ''S2''), (''value'', Num 10)]"
  let ?rows = "[?r0, ?r1, ?r2, ?r3]"
  have a: "clamp (bound_of ''min'' ?pf (objects ?els)) (bound_of ''max'' ?pf (objects ?els))
            (slope_of ?pf (objects ?els) * 10 + intercept_of ?pf (objects ?els)) = 21"
    by (simp add: clamp_def bound_of_def slope_of_def intercept_of_def last_param_def)
  have b: "clamp (bound_of ''min'' ?pf (objects ?els)) (bound_of ''max'' ?pf (objects ?els))
            (slope_of ?pf (objects ?els) * 59.5 + intercept_of ?pf (objects ?els)) = 100"
    by (simp add: clamp_def bound_of_def slope_of_def intercept_of_def last_param_def)
  have p: "params ?md ''S1'' = Array ?els" "params ?md ''S2'' = Falsy"
    by (simp_all add: plain_object_def Object_prototype_def)
  have reg: "\<forall>r \<in> set ?rows. regular ?md r"
    by (simp add: regular_def sensor_of_def field_def plain_object_def Object_prototype_def)
  have c0: "calibrate_row ?pf ?md ?r0 = Inr [(''time'', Num 100), (''sensor'', Str ''S1''), (''value'', Num 21)]"
    using calibration_formula[of ?r0 "''S1''" ?md ?els ?pf 10 "[]"] a p
    by (simp add: sensor_of_def field_def)
  have c1: "calibrate_row ?pf ?md ?r1 = Inr [(''time'', Num 101), (''sensor'', Str ''S1''), (''value'', Num 100)]"
    using calibration_formula[of ?r1 "''S1''" ?md ?els ?pf "59.5" "[]"] b p
    by (simp add: sensor_of_def field_def)
  have c2: "calibrate_row ?pf ?md ?r2 = Inr ?r2"
    using calibration_formula[of ?r2 "''S1''" ?md ?els ?pf 0 ?rows] reg
    by (simp add: field_def)
  have c3: "calibrate_row ?pf ?md ?r3 = Inr ?r3"
    using calibration_formula[of ?r3 "''S2''" ?md ?els ?pf 0 "[]"] p
    by (simp add: sensor_of_def field_def)
  from calibration_formula[of ?r0 "''S1''" ?md ?els ?pf 10 ?rows] reg
  obtain out where out: "calibrate ?pf ?md ?rows = Inr out" "length out = length ?rows"
    "\<forall>i < length ?rows. calibrate_row ?pf ?md (?rows ! i) = Inr (out ! i)"
    by blast
  have "out ! 0 = [(''time'', Num 100), (''sensor'', Str ''S1''), (''value'', Num 21)]"
    using out(3)[rule_format, of 0] c0 by simp
  moreover have "out ! 1 = [(''time'', Num 101), (''sensor'', Str ''S1''), (''value'', Num 100)]"
    using out(3)[rule_format, of 1] c1 by simp
  moreover have "out ! 2 = ?r2" using out(3)[rule_format, of 2] c2 by simp
  moreover have "out ! 3 = ?r3" using out(3)[rule_format, of 3] c3 by simp
  moreover have "out = [out ! 0, out ! 1, out ! 2, out ! 3]"
    using out(2) by (auto simp: list_eq_iff_nth_eq less_Suc_eq numeral_eq_Suc)
  ultimately show ?thesis using out(1) by simp
qed

text \<open>
  Claim C3 as stated fails in two ways.  For the slope 0: with \<open>m = 0\<close>, \<open>c = 1\<close> and the
  raw value 10 the claim gives \<open>0 * 10 + 1 = 1\<close>; the code gives 11.  And the stage is
  not total: for a record whose sensor is named \<open>toString\<close> the lookup in
  \<open>metadata.params\<close> finds the method of that name, which cannot be iterated.
\<close>

theorem calibration_counterexample:
  "calibrate_row (\<lambda>s. None)
      \<lparr>sensors = [], params = plain_object [''S1'' \<mapsto> Array [Param \<lparr>paramName = ''m'', paramValue = Num 0\<rparr>,
          Param \<lparr>paramName = ''c'', paramValue = Num 1\<rparr>]]\<rparr>
      [(''time'', Num 100), (''sensor'', Str ''S1''), (''value'', Num 10)]
    = Inr [(''time'', Num 100), (''sensor'', Str ''S1''), (''value'', Num 11)]
   \<and> Num (0 * 10 + 1) \<noteq> Num 11
   \<and> calibrate (\<lambda>s. None)
      \<lparr>sensors = [], params = plain_object [''S1'' \<mapsto> Array [Param \<lparr>paramName = ''m'', paramValue = Num 2\<rparr>]]\<rparr>
      [[(''time'', Num 100), (''sensor'', Str ''toString''), (''value'', Num 10)]]
    = Inl (TypeError ''sensorParams is not iterable'')"
  by (simp add: calibrate_row_def sensor_of_def field_def read_params_def read_param_def
      cal_default_def calibrated_def plain_object_def Object_prototype_def)

text \<open>
  Claim C10.  The slope never is zero, whatever the parameters are.  When the last
  parameter named \<open>m\<close> parses to 0 or to no number, the slope used is 1: a record whose
  value parses as \<open>v\<close> gets \<open>1 * v + c\<close> (clamped), not the intercept \<open>c\<close>.
\<close>

theorem zero_slope_defaults_to_one:
  "cal_m (read_params pf ps') \<noteq> 0
   \<and> (read_elements pf cal_default els' = Inr cp \<longrightarrow> cal_m cp \<noteq> 0)
   \<and> (Nullish \<notin> set els \<and> last_param ''m'' (objects els) = Some pv
        \<and> (parseFloat pf pv = Some 0 \<or> parseFloat pf pv = None) \<longrightarrow>
        read_elements pf cal_default els = Inr (read_params pf (objects els))
        \<and> cal_m (read_params pf (objects els)) = 1
        \<and> (sensor_of r = Some s \<and> params md s = Array els \<and> parseFloat pf (field r ''value'') = Some v \<longrightarrow>
             calibrate_row pf md r =
               Inr (AList.update ''value''
                 (Num (clamp (bound_of ''min'' pf (objects els)) (bound_of ''max'' pf (objects els))
                         (1 * v + intercept_of pf (objects els)))) r)))"
proof -
  have one: "slope_of pf (objects els) = 1"
    if "last_param ''m'' (objects els) = Some pv" "parseFloat pf pv = Some 0 \<or> parseFloat pf pv = None"
    using that by (auto simp: slope_of_def)
  have a: "cal_m (read_params pf ps') \<noteq> 0" by (simp add: read_params_eq slope_of_nonzero)
  have b: "read_elements pf cal_default els' = Inr cp \<longrightarrow> cal_m cp \<noteq> 0"
    using read_elements_slope by blast
  have c: "read_elements pf cal_default els = Inr (read_params pf (objects els))"
    if "Nullish \<notin> set els" using that by (rule read_elements_default)
  have d: "cal_m (read_params pf (objects els)) = 1"
    if "last_param ''m'' (objects els) = Some pv" "parseFloat pf pv = Some 0 \<or> parseFloat pf pv = None"
    using one[OF that] by (simp add: read_params_eq)
  have e: "calibrate_row pf md r =
               Inr (AList.update ''value''
                 (Num (clamp (bound_of ''min'' pf (objects els)) (bound_of ''max'' pf (objects els))
                         (1 * v + intercept_of pf (objects els)))) r)"
    if "Nullish \<notin> set els" "last_param ''m'' (objects els) = Some pv"
      "parseFloat pf pv = Some 0 \<or> parseFloat pf pv = None"
      "sensor_of r = Some s" "params md s = Array els" "parseFloat pf (field r ''value'') = Some v"
    using calibrate_row_numeric[OF that(4,5,1,6)] one[OF that(2,3)] by simp
  show ?thesis using a b c d e by blast
qed

theorem zero_slope_defaults_to_one_witness:
  "cal_m (read_params (\<lambda>s. None) [\<lparr>paramName = ''m'', paramValue = Num 0\<rparr>,
          \<lparr>paramName = ''c'', paramValue = Num 1\<rparr>]) = 1
   \<and> read_elements (\<lambda>s. None) cal_default [Param \<lparr>paramName = ''m'', paramValue = Num 0\<rparr>,
          Param \<lparr>paramName = ''c'', paramValue = Num 1\<rparr>]
      = Inr \<lparr>cal_m = 1, cal_c = 1, cal_min = None, cal_max = None\<rparr>
   \<and> calibrate_row (\<lambda>s. None)
      \<lparr>sensors = [], params = plain_object [''S1'' \<mapsto> Array [Param \<lparr>paramName = ''m'', paramValue = Num 0\<rparr>,
          Param \<lparr>paramName = ''c'', paramValue = Num 1\<rparr>]]\<rparr>
      [(''time'', Num 100), (''sensor'', Str ''S1''), (''value'', Num 10)]
    = Inr [(''time'', Num 100), (''sensor'', Str ''S1''), (''value'', Num 11)]"
proof -
  let ?els = "[Param \<lparr>paramName = ''m'', paramValue = Num 0\<rparr>, Param \<lparr>paramName = ''c'', paramValue = Num 1\<rparr>]"
  let ?md = "\<lparr>sensors = [], params = plain_object [''S1'' \<mapsto> Array ?els]\<rparr>"
  let ?pf = "\<lambda>s::string. None::real option"
  have lp: "last_param ''m'' (objects ?els) = Some (Num 0)" by (simp add: last_param_def)
  have cl: "clamp (bound_of ''min'' ?pf (objects ?els)) (bound_of ''max'' ?pf (objects ?els))
             (1 * 10 + intercept_of ?pf (objects ?els)) = 11"
    by (simp add: clamp_def bound_of_def intercept_of_def last_param_def)
  have rp: "read_params ?pf (objects ?els) = \<lparr>cal_m = 1, cal_c = 1, cal_min = None, cal_max = None\<rparr>"
    by (simp add: read_params_def read_param_def cal_default_def)
  have p: "params ?md ''S1'' = Array ?els" by (simp add: plain_object_def)
  show ?thesis
    using zero_slope_defaults_to_one[of ?pf "[]" "[]" cal_default ?els "Num 0"
        "[(''time'', Num 100), (''sensor'', Str ''S1''), (''value'', Num 10)]" "''S1''" ?md 10] lp cl rp p
    by (simp add: sensor_of_def field_def)
qed

subsection \<open>Pivot\<close>

lemma set_first_seen: "set (first_seen xs) = set xs"
  by (induction xs) auto

lemma distinct_first_seen: "distinct (first_seen xs)"
  by (induction xs) (auto simp: set_first_seen)

lemma filter_first_seen: "filter P (first_seen xs) = first_seen (filter P xs)"
proof (induction xs)
  case Nil
  then show ?case by simp
next
  case (Cons x xs)
  show ?case
  proof (cases "P x")
    case True
    have "filter P (filter (\<lambda>y. y \<noteq> x) (first_seen xs)) = filter (\<lambda>y. y \<noteq> x) (filter P (first_seen xs))"
      by (simp add: conj_commute)
    then show ?thesis using True Cons.IH by simp
  next
    case False
    then have "x \<notin> set (first_seen (filter P xs))" by (simp add: set_first_seen)
    then have "filter (\<lambda>y. y \<noteq> x) (first_seen (filter P xs)) = first_seen (filter P xs)"
      by (auto simp: filter_id_conv)
    moreover have "filter P (filter (\<lambda>y. y \<noteq> x) (first_seen xs)) = filter (\<lambda>y. y \<noteq> x) (filter P (first_seen xs))"
      by (simp add: conj_commute)
    ultimately show ?thesis using False Cons.IH by simp
  qed
qed

lemma foldl_insert_first_seen:
  "foldl (\<lambda>acc x. if x \<in> set acc then acc else acc @ [x]) acc xs =
     acc @ first_seen (filter (\<lambda>x. x \<notin> set acc) xs)"
proof (induction xs arbitrary: acc)
  case Nil
  then show ?case by simp
next
  case (Cons x xs)
  show ?case
  proof (cases "x \<in> set acc")
    case True
    then show ?thesis using Cons.IH[of acc] by simp
  next
    case False
    have "filter (\<lambda>y. y \<notin> set (acc @ [x])) xs = filter (\<lambda>y. y \<noteq> x) (filter (\<lambda>y. y \<notin> set acc) xs)"
      by (auto intro: filter_cong)
    then show ?thesis using False Cons.IH[of "acc @ [x]"] by (simp add: filter_first_seen)
  qed
qed

lemma set_of_list_first_seen: "set_of_list xs = first_seen xs"
  using foldl_insert_first_seen[of "[]" xs] by (simp add: set_of_list_def)

lemma index_value_inj: "is_index a \<Longrightarrow> is_index b \<Longrightarrow> index_value a = index_value b \<Longrightarrow> a = b"
  by (metis is_index_def)

lemma insort_key_filter:
  "sorted (map f xs) \<Longrightarrow>
     insort_key f x xs = filter (\<lambda>y. f y < f x) xs @ x # filter (\<lambda>y. \<not> f y < f x) xs"
proof (induction xs)
  case Nil
  then show ?case by simp
next
  case (Cons y ys)
  show ?case
  proof (cases "f x \<le> f y")
    case True
    have "\<forall>z \<in> set (y # ys). \<not> f z < f x" using Cons.prems True by auto
    then have "filter (\<lambda>z. f z < f x) (y # ys) = []" "filter (\<lambda>z. \<not> f z < f x) (y # ys) = y # ys"
      by (simp_all add: filter_empty_conv filter_id_conv)
    then show ?thesis using True by simp
  next
    case False
    then have "f y < f x" by simp
    then show ?thesis using False Cons by simp
  qed
qed

lemma sort_key_snoc:
  "f x \<notin> f ` set xs \<Longrightarrow> sort_key f (xs @ [x]) = insort_key f x (sort_key f xs)"
proof (induction xs)
  case Nil
  then show ?case by simp
next
  case (Cons y ys)
  then have "f x \<noteq> f y" "f x \<notin> f ` set ys" by auto
  then show ?case using Cons.IH by (simp add: insort_key_left_comm)
qed

lemma set_own_order: "set (own_order S) = set S"
  by (auto simp: own_order_def)

lemma own_order_snoc_other: "\<not> is_index k \<Longrightarrow> own_order (S @ [k]) = own_order S @ [k]"
  by (simp add: own_order_def)

lemma filter_fst: "map fst (filter (\<lambda>p. Q (fst p)) r) = filter Q (map fst r)"
  by (induction r) simp_all

lemma own_order_snoc_index:
  assumes "is_index k" and "k \<notin> set S"
  shows "own_order (S @ [k]) =
     filter (\<lambda>x. is_index x \<and> index_value x < index_value k) (own_order S) @ k #
     filter (\<lambda>x. \<not> (is_index x \<and> index_value x < index_value k)) (own_order S)"
proof -
  define I where "I = sort_key index_value (filter is_index S)"
  define N where "N = filter (\<lambda>k. \<not> is_index k) S"
  have idx: "\<forall>x \<in> set I. is_index x" by (simp add: I_def)
  have non: "\<forall>x \<in> set N. \<not> is_index x" by (simp add: N_def)
  have srt: "sorted (map index_value I)" by (simp add: I_def)
  have fresh: "index_value k \<notin> index_value ` set (filter is_index S)"
    using assms index_value_inj by auto
  have a1: "filter (\<lambda>x. is_index x \<and> index_value x < index_value k) I =
        filter (\<lambda>x. index_value x < index_value k) I"
    using idx by (intro filter_cong) auto
  have a2: "filter (\<lambda>x. is_index x \<and> index_value x < index_value k) N = []"
    using non by (simp add: filter_empty_conv)
  have b1: "filter (\<lambda>x. \<not> (is_index x \<and> index_value x < index_value k)) I =
        filter (\<lambda>x. \<not> index_value x < index_value k) I"
    using idx by (intro filter_cong) auto
  have b2: "filter (\<lambda>x. \<not> (is_index x \<and> index_value x < index_value k)) N = N"
    using non by (simp add: filter_id_conv)
  have "own_order (S @ [k]) = sort_key index_value (filter is_index S @ [k]) @ N"
    using assms(1) by (simp add: own_order_def N_def)
  also have "sort_key index_value (filter is_index S @ [k]) = insort_key index_value k I"
    unfolding I_def using fresh by (rule sort_key_snoc)
  also have "\<dots> = filter (\<lambda>x. index_value x < index_value k) I @ k #
      filter (\<lambda>x. \<not> index_value x < index_value k) I"
    using srt by (rule insort_key_filter)
  finally have lhs: "own_order (S @ [k]) =
      (filter (\<lambda>x. index_value x < index_value k) I @ k #
       filter (\<lambda>x. \<not> index_value x < index_value k) I) @ N" .
  have o: "own_order S = I @ N" by (simp only: own_order_def I_def N_def)
  show ?thesis unfolding lhs o filter_append a1 a2 b1 b2 by (simp only: append_assoc append_Cons append_Nil2)
qed

lemma define_own_keys:
  assumes "map fst r = own_order S"
  shows "map fst (define_own k v r) = own_order (if k \<in> set S then S else S @ [k])"
proof -
  have dom: "map_of r k = None \<longleftrightarrow> k \<notin> set S"
    using assms set_own_order[of S] by (metis map_of_eq_None_iff set_map)
  show ?thesis
  proof (cases "k \<in> set S")
    case True
    then have "k \<in> set (map fst r)" using assms set_own_order by simp
    then have "map fst (AList.update k v r) = map fst r" by (simp add: AList.update_keys)
    moreover have "map_of r k \<noteq> None" using dom True by simp
    then have "define_own k v r = AList.update k v r" by (simp only: define_own_def simp_thms if_False)
    ultimately show ?thesis using True assms by simp
  next
    case False
    then have nk: "k \<notin> set (map fst r)" using assms set_own_order by simp
    show ?thesis
    proof (cases "is_index k")
      case True
      define Q where "Q = (\<lambda>x. is_index x \<and> index_value x < index_value k)"
      have "map_of r k = None" using dom False by simp
      then have "define_own k v r = filter (\<lambda>p. Q (fst p)) r @ (k, v) # filter (\<lambda>p. \<not> Q (fst p)) r"
        using True by (simp add: define_own_def Q_def)
      then have "map fst (define_own k v r) = filter Q (map fst r) @ k # filter (\<lambda>x. \<not> Q x) (map fst r)"
        using filter_fst[of Q r] filter_fst[of "\<lambda>x. \<not> Q x" r] by simp
      then have "map fst (define_own k v r) =
          filter (\<lambda>x. is_index x \<and> index_value x < index_value k) (map fst r) @ k #
          filter (\<lambda>x. \<not> (is_index x \<and> index_value x < index_value k)) (map fst r)"
        unfolding Q_def .
      then show ?thesis using own_order_snoc_index[OF True False] False assms by simp
    next
      case nonidx: False
      have "map fst (AList.update k v r) = map fst r @ [k]" using nk by (simp add: AList.update_keys)
      then show ?thesis using nonidx False assms by (simp add: define_own_def own_order_snoc_other)
    qed
  qed
qed

lemma map_of_filter_fst:
  "map_of (filter (\<lambda>p. Q (fst p)) r) x = (if Q x then map_of r x else None)"
  by (induction r) auto

lemma define_own_map_of: "map_of (define_own k v r) x = (if x = k then Some v else map_of r x)"
proof (cases "map_of r k = None \<and> is_index k")
  case True
  define Q where "Q = (\<lambda>x. is_index x \<and> index_value x < index_value k)"
  define F1 where "F1 = filter (\<lambda>p. Q (fst p)) r"
  define F2 where "F2 = filter (\<lambda>p. \<not> Q (fst p)) r"
  have d: "define_own k v r = F1 @ (k, v) # F2"
    using True by (simp add: define_own_def F1_def F2_def Q_def)
  have a: "map_of F1 x = (if Q x then map_of r x else None)"
    unfolding F1_def by (rule map_of_filter_fst)
  have b: "map_of F2 x = (if \<not> Q x then map_of r x else None)"
    unfolding F2_def by (rule map_of_filter_fst[of "\<lambda>x. \<not> Q x"])
  have nq: "\<not> Q k" by (simp add: Q_def)
  have "map_of (F1 @ (k, v) # F2) x =
      (case map_of F1 x of None \<Rightarrow> (if x = k then Some v else map_of F2 x) | Some y \<Rightarrow> Some y)"
    by (simp add: map_add_def split: option.splits)
  also have "\<dots> = (if x = k then Some v else map_of r x)"
    using a b nq True by (cases "Q x") (auto split: option.splits)
  finally show ?thesis unfolding d .
next
  case False
  then have "define_own k v r = AList.update k v r" by (simp only: define_own_def if_False)
  then show ?thesis by (simp add: AList.update_conv')
qed

lemma assign_own: "k \<noteq> ''__proto__'' \<Longrightarrow> assign k v (True, r) = (True, define_own k v r)"
  by (simp add: assign_def)

lemma add_column_keys:
  assumes "map fst p = own_order S" and "reports r \<longrightarrow> sensor_of r \<noteq> Some ''__proto__''"
  shows "fst (add_column (True, p) r) \<and>
     map fst (snd (add_column (True, p) r)) =
       own_order (if reports r \<and> the (sensor_of r) \<notin> set S then S @ [the (sensor_of r)] else S)"
proof (cases "reports r")
  case True
  then obtain s where s: "sensor_of r = Some s" "field r ''value'' \<noteq> Undefined"
    by (auto simp: reports_def)
  then have "s \<noteq> ''__proto__''" using assms(2) True by auto
  then have "add_column (True, p) r = (True, define_own s (field r ''value'') p)"
    using s by (simp add: add_column_def assign_own)
  then show ?thesis using True s define_own_keys[OF assms(1), of s "field r ''value''"] by simp
next
  case False
  then have "add_column (True, p) r = (True, p)"
    by (auto simp: add_column_def reports_def split: option.splits)
  then show ?thesis using False assms(1) by simp
qed

lemma foldl_add_column_keys:
  assumes "map fst p = own_order S" and "\<forall>r \<in> set rs. reports r \<longrightarrow> sensor_of r \<noteq> Some ''__proto__''"
  shows "fst (foldl add_column (True, p) rs) \<and>
     map fst (snd (foldl add_column (True, p) rs)) =
       own_order (foldl (\<lambda>acc x. if x \<in> set acc then acc else acc @ [x]) S
         (map (\<lambda>r. the (sensor_of r)) (filter reports rs)))"
  using assms
proof (induction rs arbitrary: p S)
  case Nil
  then show ?case by simp
next
  case (Cons r rs)
  let ?S = "if reports r \<and> the (sensor_of r) \<notin> set S then S @ [the (sensor_of r)] else S"
  obtain p' where p': "add_column (True, p) r = (True, p')" "map fst p' = own_order ?S"
    using add_column_keys[OF Cons.prems(1), of r] Cons.prems(2)
    by (cases "add_column (True, p) r") auto
  have rest: "\<forall>r \<in> set rs. reports r \<longrightarrow> sensor_of r \<noteq> Some ''__proto__''"
    using Cons.prems(2) by simp
  show ?case using Cons.IH[OF p'(2) rest] p'(1) by auto
qed

lemma add_column_map_of:
  assumes "reports r \<longrightarrow> sensor_of r \<noteq> Some ''__proto__''"
  shows "map_of (snd (add_column (True, p) r)) s =
     (if reports r \<and> sensor_of r = Some s then Some (field r ''value'') else map_of p s)"
  using assms
  by (auto simp: add_column_def reports_def assign_own define_own_map_of split: option.splits)

lemma foldl_add_column_flag:
  assumes "\<forall>r \<in> set rs. reports r \<longrightarrow> sensor_of r \<noteq> Some ''__proto__''"
  shows "fst (foldl add_column (True, p) rs)"
  using assms
proof (induction rs arbitrary: p)
  case Nil
  then show ?case by simp
next
  case (Cons r rs)
  have "fst (add_column (True, p) r)"
    using Cons.prems
    by (auto simp: add_column_def reports_def assign_own split: option.splits)
  then obtain p' where "add_column (True, p) r = (True, p')"
    by (cases "add_column (True, p) r") auto
  then show ?case using Cons.IH[of p'] Cons.prems by simp
qed

lemma foldl_add_column_map_of:
  assumes "\<forall>r \<in> set rs. reports r \<longrightarrow> sensor_of r \<noteq> Some ''__proto__''"
  shows "map_of (snd (foldl add_column (True, p) rs)) s =
     (case last_value (filter reports rs) s of None \<Rightarrow> map_of p s | Some v \<Rightarrow> Some v)"
  using assms
proof (induction rs rule: rev_induct)
  case Nil
  then show ?case by (simp add: last_value_def)
next
  case (snoc r rs)
  have rest: "\<forall>r \<in> set rs. reports r \<longrightarrow> sensor_of r \<noteq> Some ''__proto__''"
    using snoc.prems by simp
  obtain q where q: "foldl add_column (True, p) rs = (True, q)"
    using foldl_add_column_flag[OF rest, of p] by (cases "foldl add_column (True, p) rs") auto
  have r: "reports r \<longrightarrow> sensor_of r \<noteq> Some ''__proto__''" using snoc.prems by simp
  have "map_of (snd (foldl add_column (True, p) (rs @ [r]))) s =
      (if reports r \<and> sensor_of r = Some s then Some (field r ''value'') else map_of q s)"
    using add_column_map_of[OF r, of q s] q by simp
  moreover have "map_of q s =
      (case last_value (filter reports rs) s of None \<Rightarrow> map_of p s | Some v \<Rightarrow> Some v)"
    using snoc.IH[OF rest] q by simp
  ultimately show ?case by (simp add: last_value_def)
qed

lemma own_order_timestamp:
  "own_order (''timestamp'' # S) =
     sort_key index_value (filter is_index S) @ ''timestamp'' # filter (\<lambda>k. \<not> is_index k) S"
proof -
  have "\<not> is_index ''timestamp''"
    by (simp add: is_index_def index_value_def dec.simps digit_def)
  then show ?thesis by (simp add: own_order_def)
qed

lemma pivot_row_keys:
  assumes "\<forall>r \<in> set rows. reports r \<longrightarrow>
             sensor_of r \<noteq> Some ''timestamp'' \<and> sensor_of r \<noteq> Some ''__proto__''"
  shows "map fst (pivot_row rows k) =
     sort_key index_value (filter is_index (first_seen (map (\<lambda>r. the (sensor_of r)) (reporting rows k))))
     @ ''timestamp'' #
     filter (\<lambda>s. \<not> is_index s) (first_seen (map (\<lambda>r. the (sensor_of r)) (reporting rows k)))"
proof -
  let ?rs = "filter (\<lambda>r. group_key r = k) rows"
  let ?ss = "map (\<lambda>r. the (sensor_of r)) (reporting rows k)"
  have "''timestamp'' \<notin> set ?ss"
    using assms by (auto simp: reporting_def reports_def)
  then have "\<forall>x \<in> set ?ss. x \<noteq> ''timestamp''" by blast
  then have f: "filter (\<lambda>x. x \<notin> set [''timestamp'']) ?ss = ?ss"
    by (simp add: filter_id_conv)
  have rep: "filter reports ?rs = reporting rows k"
    by (simp add: reporting_def)
  have np: "\<forall>r \<in> set ?rs. reports r \<longrightarrow> sensor_of r \<noteq> Some ''__proto__''"
    using assms by simp
  have start: "map fst [(''timestamp'', k)] = own_order [''timestamp'']"
    using own_order_timestamp[of "[]"] by simp
  have "map fst (pivot_row rows k) =
      own_order (foldl (\<lambda>acc x. if x \<in> set acc then acc else acc @ [x]) [''timestamp''] ?ss)"
    using foldl_add_column_keys[OF start np] rep by (simp add: pivot_row_def)
  also have "foldl (\<lambda>acc x. if x \<in> set acc then acc else acc @ [x]) [''timestamp''] ?ss =
      ''timestamp'' # first_seen ?ss"
    using foldl_insert_first_seen[of "[''timestamp'']" ?ss] f by (simp del: set_simps)
  finally show ?thesis by (simp only: own_order_timestamp)
qed

lemma pivot_row_map_of:
  assumes "\<forall>r \<in> set rows. reports r \<longrightarrow> sensor_of r \<noteq> Some ''__proto__''"
  shows "map_of (pivot_row rows k) s =
     (case last_value (reporting rows k) s of
        None \<Rightarrow> (if s = ''timestamp'' then Some k else None)
      | Some v \<Rightarrow> Some v)"
proof -
  let ?rs = "filter (\<lambda>r. group_key r = k) rows"
  have rep: "filter reports ?rs = reporting rows k"
    by (simp add: reporting_def)
  have np: "\<forall>r \<in> set ?rs. reports r \<longrightarrow> sensor_of r \<noteq> Some ''__proto__''"
    using assms by simp
  show ?thesis
    using foldl_add_column_map_of[OF np, of "[(''timestamp'', k)]" s] rep
    by (simp add: pivot_row_def split: option.splits)
qed

lemma last_value_None: "last_value rs s = None \<longleftrightarrow> (\<forall>r \<in> set rs. sensor_of r \<noteq> Some s)"
  by (auto simp: last_value_def filter_empty_conv)

lemma pivot_row_timestamp:
  assumes "\<forall>r \<in> set rows. reports r \<longrightarrow>
             sensor_of r \<noteq> Some ''timestamp'' \<and> sensor_of r \<noteq> Some ''__proto__''"
  shows "field (pivot_row rows k) ''timestamp'' = k"
proof -
  have "last_value (reporting rows k) ''timestamp'' = None"
    using assms by (auto simp: last_value_None reporting_def)
  moreover have "\<forall>r \<in> set rows. reports r \<longrightarrow> sensor_of r \<noteq> Some ''__proto__''"
    using assms by blast
  ultimately show ?thesis by (simp add: field_def pivot_row_map_of)
qed

lemma is_index_examples:
  "\<not> is_index ''A''" "\<not> is_index ''B''" "is_index ''1''" "is_index ''2''"
  by (simp_all add: is_index_def index_value_def dec.simps digit_def)

text \<open>
  Claim C4, as amended.  Provided no reporting record has the sensor name \<open>timestamp\<close>
  or \<open>__proto__\<close>: pivot makes one row per distinct grouping key (\<open>timestamp\<close> if truthy,
  else \<open>time\<close>), in first-seen order of the keys; the row of a key holds the key under
  \<open>timestamp\<close> and one column per sensor that reports at the key, holding the value of
  the sensor's last record at that key; a sensor that does not report at the key has no
  column in that row.  The columns whose names are array indices come first, in ascending
  order of the index, then \<open>timestamp\<close>, then the other sensors in first-seen order.
\<close>

theorem pivot_rows:
  assumes "\<forall>r \<in> set rows. reports r \<longrightarrow>
             sensor_of r \<noteq> Some ''timestamp'' \<and> sensor_of r \<noteq> Some ''__proto__''"
  shows "pivot rows = map (pivot_row rows) (first_seen (map group_key rows))
    \<and> length (pivot rows) = card (group_key ` set rows)
    \<and> map (\<lambda>p. field p ''timestamp'') (pivot rows) = first_seen (map group_key rows)
    \<and> (\<forall>k. map fst (pivot_row rows k) =
              sort_key index_value
                (filter is_index (first_seen (map (\<lambda>r. the (sensor_of r)) (reporting rows k))))
              @ ''timestamp'' #
              filter (\<lambda>s. \<not> is_index s) (first_seen (map (\<lambda>r. the (sensor_of r)) (reporting rows k)))
            \<and> (\<forall>s. s \<noteq> ''timestamp'' \<longrightarrow>
                  map_of (pivot_row rows k) s = last_value (reporting rows k) s
                  \<and> ((\<forall>r \<in> set (reporting rows k). sensor_of r \<noteq> Some s) \<longrightarrow>
                        s \<notin> set (map fst (pivot_row rows k)))))"
proof -
  have np: "\<forall>r \<in> set rows. reports r \<longrightarrow> sensor_of r \<noteq> Some ''__proto__''"
    using assms by blast
  have p: "pivot rows = map (pivot_row rows) (first_seen (map group_key rows))"
    by (simp add: pivot_def set_of_list_first_seen)
  have "length (first_seen (map group_key rows)) = card (set (first_seen (map group_key rows)))"
    using distinct_first_seen[of "map group_key rows"] by (simp add: distinct_card)
  then have l: "length (pivot rows) = card (group_key ` set rows)"
    by (simp add: p set_first_seen)
  have t: "map (\<lambda>p. field p ''timestamp'') (pivot rows) = first_seen (map group_key rows)"
    using pivot_row_timestamp[OF assms] by (simp add: p map_idI)
  have v: "map_of (pivot_row rows k) s = last_value (reporting rows k) s" if "s \<noteq> ''timestamp''" for k s
    using that by (simp add: pivot_row_map_of[OF np] split: option.splits)
  have a: "s \<notin> set (map fst (pivot_row rows k))"
    if "s \<noteq> ''timestamp''" "\<forall>r \<in> set (reporting rows k). sensor_of r \<noteq> Some s" for k s
  proof -
    have "map_of (pivot_row rows k) s = None" using that v last_value_None by metis
    then show ?thesis by (simp add: map_of_eq_None_iff)
  qed
  show ?thesis using p l t pivot_row_keys[OF assms] v a by blast
qed

theorem pivot_rows_witness:
  "pivot [[(''time'', Num 100), (''sensor'', Str ''A''), (''value'', Num 5)],
          [(''time'', Num 100), (''sensor'', Str ''B''), (''value'', Num 7)]]
      = [[(''timestamp'', Num 100), (''A'', Num 5), (''B'', Num 7)]]
   \<and> map (\<lambda>p. field p ''timestamp'')
        (pivot [[(''time'', Num 100), (''sensor'', Str ''A''), (''value'', Num 5)],
                [(''time'', Num 100), (''sensor'', Str ''B''), (''value'', Num 7)]]) = [Num 100]
   \<and> map fst (pivot_row [[(''time'', Num 100), (''sensor'', Str ''A''), (''value'', Num 5)],
                          [(''time'', Num 100), (''sensor'', Str ''B''), (''value'', Num 7)]] (Num 100))
      = [''timestamp'', ''A'', ''B'']
   \<and> map fst (pivot_row [[(''time'', Num 100), (''sensor'', Str ''2''), (''value'', Num 5)],
                          [(''time'', Num 100), (''sensor'', Str ''B''), (''value'', Num 6)],
                          [(''time'', Num 100), (''sensor'', Str ''1''), (''value'', Num 7)]] (Num 100))
      = [''1'', ''2'', ''timestamp'', ''B'']"
proof -
  let ?rows = "[[(''time'', Num 100), (''sensor'', Str ''A''), (''value'', Num 5)],
                [(''time'', Num 100), (''sensor'', Str ''B''), (''value'', Num 7)]]"
  let ?rows2 = "[[(''time'', Num 100), (''sensor'', Str ''2''), (''value'', Num 5)],
                 [(''time'', Num 100), (''sensor'', Str ''B''), (''value'', Num 6)],
                 [(''time'', Num 100), (''sensor'', Str ''1''), (''value'', Num 7)]]"
  have h: "\<forall>r \<in> set ?rows. reports r \<longrightarrow>
             sensor_of r \<noteq> Some ''timestamp'' \<and> sensor_of r \<noteq> Some ''__proto__''"
    by (simp add: sensor_of_def field_def)
  have h2: "\<forall>r \<in> set ?rows2. reports r \<longrightarrow>
             sensor_of r \<noteq> Some ''timestamp'' \<and> sensor_of r \<noteq> Some ''__proto__''"
    by (simp add: sensor_of_def field_def)
  have k: "first_seen (map group_key ?rows) = [Num 100]"
    by (simp add: group_key_def field_def)
  have s: "first_seen (map (\<lambda>r. the (sensor_of r)) (reporting ?rows (Num 100))) = [''A'', ''B'']"
    by (simp add: reporting_def reports_def group_key_def sensor_of_def field_def)
  have s2: "first_seen (map (\<lambda>r. the (sensor_of r)) (reporting ?rows2 (Num 100))) = [''2'', ''B'', ''1'']"
    by (simp add: reporting_def reports_def group_key_def sensor_of_def field_def)
  have iv: "index_value ''1'' = 1" "index_value ''2'' = 2" by (simp_all add: index_value_def)
  have r: "pivot_row ?rows (Num 100) = [(''timestamp'', Num 100), (''A'', Num 5), (''B'', Num 7)]"
    by (simp add: pivot_row_def group_key_def field_def add_column_def sensor_of_def assign_def
        define_own_def is_index_examples)
  have e1: "pivot ?rows = map (pivot_row ?rows) (first_seen (map group_key ?rows))"
    by (rule pivot_rows[OF h, THEN conjunct1])
  have e3: "map (\<lambda>p. field p ''timestamp'') (pivot ?rows) = first_seen (map group_key ?rows)"
    by (rule pivot_rows[OF h, THEN conjunct2, THEN conjunct2, THEN conjunct1])
  have e4: "map fst (pivot_row ?rows (Num 100)) = [''timestamp'', ''A'', ''B'']"
    using pivot_rows[OF h, THEN conjunct2, THEN conjunct2, THEN conjunct2, rule_format, of "Num 100",
        THEN conjunct1]
    unfolding s by (simp add: is_index_examples)
  have e5: "map fst (pivot_row ?rows2 (Num 100)) = [''1'', ''2'', ''timestamp'', ''B'']"
    using pivot_rows[OF h2, THEN conjunct2, THEN conjunct2, THEN conjunct2, rule_format, of "Num 100",
        THEN conjunct1]
    unfolding s2 by (simp add: is_index_examples iv)
  have "pivot ?rows = [[(''timestamp'', Num 100), (''A'', Num 5), (''B'', Num 7)]]"
    unfolding e1 k using r by simp
  moreover have "map (\<lambda>p. field p ''timestamp'') (pivot ?rows) = [Num 100]"
    unfolding e3 k by simp
  ultimately show ?thesis using e4 e5 by blast
qed

text \<open>
  Claim C4 as stated fails in three ways.  A sensor named \<open>timestamp\<close> has the property
  that holds the grouping key as its column, so the row of key 100 ends up with 5 under
  \<open>timestamp\<close>.  Sensors named by numerals do not keep first-seen order and come before
  \<open>timestamp\<close>: \<open>2\<close> then \<open>1\<close> gives the columns \<open>1\<close>, \<open>2\<close>, \<open>timestamp\<close>.  A sensor
  named \<open>__proto__\<close> gets no column.
\<close>

theorem pivot_counterexample:
  "pivot [[(''time'', Num 100), (''sensor'', Str ''timestamp''), (''value'', Num 5)]]
     = [[(''timestamp'', Num 5)]]
   \<and> group_key [(''time'', Num 100), (''sensor'', Str ''timestamp''), (''value'', Num 5)] = Num 100
   \<and> pivot [[(''time'', Num 100), (''sensor'', Str ''2''), (''value'', Num 5)],
            [(''time'', Num 100), (''sensor'', Str ''1''), (''value'', Num 7)]]
     = [[(''1'', Num 7), (''2'', Num 5), (''timestamp'', Num 100)]]
   \<and> pivot [[(''time'', Num 100), (''sensor'', Str ''__proto__''), (''value'', Num 5)]]
     = [[(''timestamp'', Num 100)]]"
  by (simp add: pivot_def set_of_list_def pivot_row_def group_key_def field_def add_column_def
      sensor_of_def assign_def define_own_def is_index_def index_value_def dec.simps digit_def)

text \<open>A sensor given as a number names the column its string names, here the index \<open>5\<close>.\<close>

lemma pivot_numeric_sensor:
  "pivot [[(''time'', Num 100), (''sensor'', Num 5), (''value'', Num 7)]]
      = [[(''5'', Num 7), (''timestamp'', Num 100)]]"
  by (simp add: pivot_def set_of_list_def pivot_row_def group_key_def field_def add_column_def
      sensor_of_def assign_def define_own_def is_index_def index_value_def dec.simps digit_def
      property_name_examples del: property_name.simps)

subsection \<open>Aliases\<close>

lemma rename_key_id:
  "k = ''sensor'' \<or> k = ''time'' \<or> k = ''timestamp'' \<or> alias_of am k = None \<Longrightarrow>
     rename_key am r newRow k = newRow"
proof (cases "k \<noteq> ''sensor'' \<and> k \<noteq> ''time'' \<and> k \<noteq> ''timestamp''")
  case True
  assume "k = ''sensor'' \<or> k = ''time'' \<or> k = ''timestamp'' \<or> alias_of am k = None"
  with True have "alias_of am k = None" by blast
  then show ?thesis unfolding rename_key_def by simp
next
  case False
  then show ?thesis unfolding rename_key_def by (simp only: if_False)
qed

lemma foldl_rename_key_id:
  "\<forall>k \<in> set ks. k = ''sensor'' \<or> k = ''time'' \<or> k = ''timestamp'' \<or> alias_of am k = None \<Longrightarrow>
     foldl (rename_key am r) newRow ks = newRow"
proof (induction ks arbitrary: newRow)
  case Nil
  then show ?case by simp
next
  case (Cons k ks)
  have "rename_key am r newRow k = newRow"
    using Cons.prems by (intro rename_key_id) simp
  moreover have "\<forall>k \<in> set ks. k = ''sensor'' \<or> k = ''time'' \<or> k = ''timestamp'' \<or> alias_of am k = None"
    using Cons.prems by simp
  ultimately show ?case using Cons.IH by simp
qed

lemma assign_sensor: "assign ''sensor'' v (True, r) = (True, AList.update ''sensor'' v r)"
proof -
  have "\<not> is_index ''sensor''" by (simp add: is_index_def index_value_def dec.simps digit_def)
  then show ?thesis by (simp add: assign_def define_own_def)
qed

lemma alias_row_long_format:
  assumes "sensor_of r = Some s" and "alias_of am s = Some a"
    and "\<forall>k \<in> set (map fst r). k = ''sensor'' \<or> k = ''time'' \<or> k = ''timestamp'' \<or> alias_of am k = None"
  shows "alias_row am r = AList.update ''sensor'' (Str a) r"
  unfolding alias_row_def Let_def using assms(1,2) foldl_rename_key_id[OF assms(3)]
  by (simp add: assign_sensor)

lemma alias_example:
  "apply_alias \<lparr>sensors = [\<lparr>sensorId = ''S1'', sensorName = ''Temp''\<rparr>], params = plain_object Map.empty\<rparr>
      [[(''time'', Num 100), (''sensor'', Str ''S1''), (''value'', Num 5)],
       [(''timestamp'', Num 100), (''S1'', Num 5)]]
     = [[(''time'', Num 100), (''sensor'', Str ''Temp''), (''value'', Num 5)],
        [(''timestamp'', Num 100), (''Temp'', Num 5)]]"
  by (simp add: apply_alias_def alias_row_def aliasMap_def alias_of_def rename_key_def
      sensor_of_def field_def AList.delete_eq assign_def define_own_def is_index_def index_value_def
      dec.simps digit_def)

text \<open>
  Claim C6, at an input where the code departs from it.  The metadata names sensor \<open>S1\<close>
  \<open>S1\<close> (the alias equals the id).  The wide row \<open>{timestamp: 100, S1: 5}\<close> should keep
  its value; the stage writes 5 under \<open>S1\<close> and then deletes \<open>S1\<close>, so the value is gone.
\<close>

theorem alias_equal_to_id_drops_column:
  "apply_alias \<lparr>sensors = [\<lparr>sensorId = ''S1'', sensorName = ''S1''\<rparr>], params = plain_object Map.empty\<rparr>
      [[(''timestamp'', Num 100), (''S1'', Num 5)]]
     = [[(''timestamp'', Num 100)]]"
  by (simp add: apply_alias_def alias_row_def aliasMap_def alias_of_def rename_key_def
      sensor_of_def field_def AList.delete_eq assign_def define_own_def is_index_def index_value_def
      dec.simps digit_def)

subsection \<open>Time normalisation\<close>








lemma timeToUnix_not_positive:
  "nonpositive x \<Longrightarrow> timeToUnix now parse (TNumber x) =
     Inl (Error ''Unix timestamp must be a positive integer in milliseconds, not seconds.'')"
  by simp

lemma timeToUnix_not_finite:
  "x = NaN \<or> x = Infinity \<or> x = NegInfinity \<Longrightarrow> timeToUnix now parse (TNumber x) =
     Inl (Error ''Unix timestamp must be a positive integer in milliseconds, not seconds.'')"
  by auto

lemma timeToUnix_denotes:
  "denotes parse a t \<Longrightarrow> timeToUnix now parse a = Inr r \<Longrightarrow> r = Some (of_int t)"
  by (cases a) (auto split: if_splits)

lemma timeToUnix_other_inputs:
  "timeToUnix now parse TNull = Inr (Some (of_int now))"
  "parse s = None \<Longrightarrow> timeToUnix now parse (TString s) = Inl (Error ''Invalid date string'')"
  "parse s = Some t \<Longrightarrow> timeToUnix now parse (TString s) = Inr (Some (of_int t))"
  "timeToUnix now parse (TDate (Some t)) = Inr (Some (of_int t))"
  by simp_all

lemma number_string_1e21: "number_string (Finite 1 21) = ''1e+21''"
  by (simp add: positive_string_def strip_small dec_small dec_numeral digit_def)

lemma number_string_1e21_digits:
  "number_string (Finite 1000000000000000000000 0) = ''1e+21''"
  by (simp add: positive_string_def strip_numeral strip_small dec_small dec_numeral digit_def)

lemma number_string_fraction: "number_string (Finite 1234567891 (- 4)) = ''123456.7891''"
  by (simp add: positive_string_def strip_numeral strip_small dec_small dec_numeral digit_def)

text \<open>
  Claim C5, at inputs where the code departs from it.  The check is on the length of
  \<open>String(time)\<close>, not on the number of digits.  \<open>1e21\<close> has 22 digits and should be
  returned unchanged; \<open>String(1e21)\<close> is \<open>1e+21\<close>, five characters, and the number is
  rejected as being in seconds.  In the other direction \<open>123456.7891\<close> has 10 digits and
  should be rejected; its string has 11 characters and the number is returned.
\<close>

theorem timeToUnix_rejects_1e21:
  "timeToUnix now parse (TNumber (Finite 1 21)) =
      Inl (Error ''Unix timestamp must be a positive integer in milliseconds, not seconds.'')
   \<and> timeToUnix now parse (TNumber (Finite 1000000000000000000000 0)) =
      Inl (Error ''Unix timestamp must be a positive integer in milliseconds, not seconds.'')
   \<and> number_string (Finite 1 21) = ''1e+21''
   \<and> decimal_digits 1000000000000000000000 = 22
   \<and> number_string (Finite 1234567891 (- 4)) = ''123456.7891''
   \<and> timeToUnix now parse (TNumber (Finite 1234567891 (- 4))) = Inr (Some (1234567891 / 10 ^ 4))"
proof -
  have "dec 1000000000000000000000 = ''1000000000000000000000''"
    by (simp add: dec_numeral dec_small digit_def)
  then have "decimal_digits 1000000000000000000000 = 22" by (simp add: decimal_digits_def)
  then show ?thesis
    by (simp add: number_string_1e21 number_string_1e21_digits number_string_fraction
        del: number_string.simps)
qed

subsection \<open>Where errors stop\<close>










lemma getLoadEntities_retries_exhausted:
  assumes "\<forall>k q. page_failed (srv k q)" and "clusters \<noteq> Some []"
  shows "getLoadEntities_try srv clusters =
           Some (Inl (Error ''Max retries for data fetching from api-layer exceeded.''),
                 retry_trace RETRY_DELAY 1 0 MAX_RETRIES)"
    and "getLoadEntities srv clusters = Some (Inr [], retry_trace RETRY_DELAY 1 0 MAX_RETRIES)"
proof -
  have "loadEntities_loop srv 1 True [] 0 0 [] =
      Some (Inl (Error ''Max retries for data fetching from api-layer exceeded.''),
            0 + (MAX_RETRIES - 0), [] @ retry_trace RETRY_DELAY 1 0 MAX_RETRIES)"
    by (rule loadEntities_loop_exhaust[OF assms(1)]) (simp add: MAX_RETRIES_def)
  then show a: "getLoadEntities_try srv clusters =
           Some (Inl (Error ''Max retries for data fetching from api-layer exceeded.''),
                 retry_trace RETRY_DELAY 1 0 MAX_RETRIES)"
    using assms(2) by (simp add: getLoadEntities_try_def)
  show "getLoadEntities srv clusters = Some (Inr [], retry_trace RETRY_DELAY 1 0 MAX_RETRIES)"
    by (simp add: getLoadEntities_def a)
qed

lemma getDp_retries_exhausted:
  assumes "\<forall>k q. dp_failed (srv k q)"
    and "getDp_prepare now parse devices_http metadata_http deviceId sensorList endTime n =
           Inr (sensor # rest, metadata, Some (CursorInfo e l))"
    and "truthy e"
  shows "getDp now parse devices_http metadata_http srv format clean deviceId sensorList endTime n =
           Some (Inr [], retry_trace RETRY_DELAY (sensor, e, l) 0 MAX_RETRIES)"
proof -
  have "getDp_loop srv sensor (CursorInfo e l) [] 0 0 [] =
      Some (Inl (Error ''Max retries reached while calling url''), 0 + (MAX_RETRIES - 0),
            [] @ retry_trace RETRY_DELAY (sensor, e, l) 0 MAX_RETRIES)"
    by (rule getDp_loop_exhaust[OF assms(1) assms(3)]) (simp add: MAX_RETRIES_def)
  then have "getDp_try now parse devices_http metadata_http srv format clean deviceId sensorList endTime n =
      Some (Inl (Error ''Max retries reached while calling url''),
            retry_trace RETRY_DELAY (sensor, e, l) 0 MAX_RETRIES)"
    by (simp add: getDp_try_def assms(2))
  then show ?thesis by (simp add: getDp_def)
qed


text \<open>
  Claim C8, at the input the claim is about.  With \<open>clusters = []\<close> the body throws before
  any request, as claimed; but the operation's own \<open>catch\<close> turns the error into the
  result \<open>[]\<close>, so the caller sees no error.
\<close>

theorem getLoadEntities_empty_clusters_resolves:
  "getLoadEntities_try srv (Some []) = Some (Inl (Error ''No clusters provided.''), [])
   \<and> getLoadEntities srv (Some []) = Some (Inr [], [])"
  by (simp add: getLoadEntities_def getLoadEntities_try_def)

end
